theory Spec2Isabelle
  imports Complex_Main "HOL-Library.Log_Nat" "HOL-Library.Word"
begin

unbundle bit_operations_syntax

section \<open>The resource scheduler of services/network/resource_scheduler/resource_scheduler.cc\<close>

text \<open>
  A shallow embedding of \<^verbatim>\<open>ResourceScheduler\<close>, its \<^verbatim>\<open>Client\<close>, its \<^verbatim>\<open>RequestQueue\<close> and
  its \<^verbatim>\<open>ScheduledResourceRequestImpl\<close>. Objects reached through pointers live in two
  memories indexed by address: one of \<^verbatim>\<open>net::URLRequest\<close> objects and one of
  \<^verbatim>\<open>ScheduledResourceRequestImpl\<close> objects. Methods become functions that take the state
  and return the new one. Histograms, trace events and the net log are not modelled; the
  field \<^verbatim>\<open>peak_delayable_requests_in_flight_\<close>, which only feeds a histogram, is left
  out with them. Time stamps and durations are integers (microseconds). The two
  \<^verbatim>\<open>double\<close> parameters are the rationals they denote; products of doubles are rounded
  as binary64 arithmetic rounds them, and \<^verbatim>\<open>static_cast<size_t>\<close> takes the integer
  part.
\<close>

subsection \<open>Constants and enumerations\<close>

datatype StartMode = START_SYNC | START_ASYNC

type_synonym RequestAttributes = "8 word"

definition kAttributeNone :: RequestAttributes where
  "kAttributeNone = 0x00"

definition kAttributeInFlight :: RequestAttributes where
  "kAttributeInFlight = 0x01"

definition kAttributeDelayable :: RequestAttributes where
  "kAttributeDelayable = 0x02"

definition kAttributeLayoutBlocking :: RequestAttributes where
  "kAttributeLayoutBlocking = 0x04"

datatype RequestStartTrigger =
    NONE | COMPLETION_PRE_BODY | COMPLETION_POST_BODY | BODY_REACHED | CLIENT_KILL
  | SPDY_PROXY_DETECTED | REQUEST_REPRIORITIZED | LONG_QUEUED_REQUESTS_TIMER_FIRED
  | EFFECTIVE_CONNECTION_TYPE_CHANGED | PEER_TO_PEER_CONNECTIONS_COUNT_CHANGED

text \<open>
  Modelled from the spec: \<^verbatim>\<open>net::RequestPriority\<close> is declared in
  net/base/request_priority.h, which is not among the sources. The spec makes it an
  ordinal, higher meaning more urgent; the levels the source names (\<^verbatim>\<open>LOW\<close>,
  \<^verbatim>\<open>MEDIUM\<close>, \<^verbatim>\<open>HIGHEST\<close>) are kept in the order of the enumeration.
\<close>

datatype RequestPriority = THROTTLED | IDLE | LOWEST | LOW | MEDIUM | HIGHEST

fun priority_ordinal :: "RequestPriority \<Rightarrow> nat" where
  "priority_ordinal THROTTLED = 0"
| "priority_ordinal IDLE = 1"
| "priority_ordinal LOWEST = 2"
| "priority_ordinal LOW = 3"
| "priority_ordinal MEDIUM = 4"
| "priority_ordinal HIGHEST = 5"

text \<open>
  Modelled from the spec: \<^verbatim>\<open>net::EffectiveConnectionType\<close> is declared in
  net/nqe/effective_connection_type.h, which is not among the sources; the source only
  compares it with \<^verbatim>\<open>OFFLINE\<close> and \<^verbatim>\<open>4G\<close>.
\<close>

datatype EffectiveConnectionType =
    ECT_UNKNOWN | ECT_OFFLINE | ECT_SLOW_2G | ECT_2G | ECT_3G | ECT_4G

fun ect_ordinal :: "EffectiveConnectionType \<Rightarrow> nat" where
  "ect_ordinal ECT_UNKNOWN = 0"
| "ect_ordinal ECT_OFFLINE = 1"
| "ect_ordinal ECT_SLOW_2G = 2"
| "ect_ordinal ECT_2G = 3"
| "ect_ordinal ECT_3G = 4"
| "ect_ordinal ECT_4G = 5"

definition kMaxNumDelayableRequestsPerHostPerClient :: "64 word" where
  "kMaxNumDelayableRequestsPerHostPerClient = 6"

definition kMaxNumDelayableWhileLayoutBlockingPerClient :: "64 word" where
  "kMaxNumDelayableWhileLayoutBlockingPerClient = 1"

definition kDelayablePriorityThreshold :: RequestPriority where
  "kDelayablePriorityThreshold = MEDIUM"

definition kInFlightNonDelayableRequestCountPerClientThreshold :: "64 word" where
  "kInFlightNonDelayableRequestCountPerClientThreshold = 1"

subsection \<open>Data\<close>

record RequestPriorityParams =
  priority :: RequestPriority
  intra_priority :: int

definition GreaterThan :: "RequestPriorityParams \<Rightarrow> RequestPriorityParams \<Rightarrow> bool" where
  "GreaterThan a other =
     (if priority a \<noteq> priority other
      then priority_ordinal (priority a) > priority_ordinal (priority other)
      else intra_priority a > intra_priority other)"

record GURL =
  gurl_scheme :: string
  gurl_host :: string
  gurl_port :: nat

definition SchemeIsHTTPOrHTTPS :: "GURL \<Rightarrow> bool" where
  "SchemeIsHTTPOrHTTPS u = (gurl_scheme u = ''http'' \<or> gurl_scheme u = ''https'')"

text \<open>What the scheduler reads and writes of a \<^verbatim>\<open>net::URLRequest\<close>. The field
  \<open>user_data\<close> is the entry under \<^verbatim>\<open>kUserDataKey\<close>: the address of the scheduler's
  handle for the request, if it has one.\<close>

record URLRequest =
  request_url :: GURL
  request_priority :: RequestPriority
  creation_time :: int
  load_flags :: "32 word"
  status_is_success :: bool
  unique_id_hash_code :: "32 word"
  network_isolation_key :: string
  user_data :: "nat option"

type_synonym ClientId = "64 word"

record ScheduledResourceRequestImpl =
  client_id :: ClientId
  request :: nat
  ready :: bool
  deferred :: bool
  is_async :: bool
  attributes :: RequestAttributes
  priority_params :: RequestPriorityParams
  fifo_ordering :: "32 word"
  host_port_pair :: "string \<times> nat"

text \<open>
  The arithmetic of \<^verbatim>\<open>double\<close>. A finite double is modelled by the rational number it
  denotes. \<open>to_double\<close> rounds a rational to the nearest number with a significand of 53
  bits, ties to the even significand, which is what the conversion of an integer to
  \<^verbatim>\<open>double\<close> and the product of two doubles do; the range of the exponent is not
  modelled, so there are no infinities and no subnormal numbers. A conversion to an
  integer type truncates toward zero; in the source it is undefined when the result does
  not fit the type, and the model then takes the result modulo the size of the type.
\<close>

type_synonym double = rat

definition pow2 :: "int \<Rightarrow> rat" where
  "pow2 e = (if 0 \<le> e then 2 ^ nat e else 1 / 2 ^ nat (- e))"

text \<open>For \<open>x > 0\<close>, the \<open>e\<close> with \<open>pow2 e \<le> x < pow2 (e + 1)\<close>.\<close>

definition binary_exponent :: "rat \<Rightarrow> int" where
  "binary_exponent x =
     (let (p, q) = quotient_of x; e = bitlen p - bitlen q
      in if pow2 e \<le> x then e else e - 1)"

definition round_half_even :: "rat \<Rightarrow> int" where
  "round_half_even x =
     (let n = \<lfloor>x\<rfloor>; d = x - of_int n
      in if d < 1 / 2 then n else if 1 / 2 < d then n + 1
         else if even n then n else n + 1)"

definition to_double :: "rat \<Rightarrow> double" where
  "to_double x =
     (if x = 0 then 0
      else let ulp = pow2 (binary_exponent \<bar>x\<bar> - 52)
           in sgn x * of_int (round_half_even (\<bar>x\<bar> / ulp)) * ulp)"

definition double_times :: "double \<Rightarrow> double \<Rightarrow> double" where
  "double_times a b = to_double (a * b)"

definition double_of_size_t :: "64 word \<Rightarrow> double" where
  "double_of_size_t n = to_double (of_nat (unat n))"

definition truncate_toward_zero :: "double \<Rightarrow> int" where
  "truncate_toward_zero x = (if x \<ge> 0 then \<lfloor>x\<rfloor> else \<lceil>x\<rceil>)"

record ParamsForNetworkQuality =
  max_delayable_requests :: "64 word"
  non_delayable_weight :: double
  delay_requests_on_multiplexed_connections :: bool
  max_queuing_time :: "int option"
  http_rtt_multiplier_for_proactive_throttling :: "double option"

record RequestQueue =
  queue :: "nat list"
  fifo_ordering_ids :: "32 word"

text \<open>\<open>in_flight_requests\<close> is the \<^verbatim>\<open>RequestSet\<close>, a duplicate-free list of addresses.
  \<open>this_client\<close> stands for the \<^verbatim>\<open>this\<close> pointer that posted tasks are bound to.
  \<open>network_quality_estimator\<close> tells whether the pointer to the estimator is not null.\<close>

record Client =
  this_client :: ClientId
  pending_requests :: RequestQueue
  in_flight_requests :: "nat list"
  is_browser_client :: bool
  in_flight_delayable_count :: "64 word"
  total_layout_blocking_count :: "64 word"
  num_skipped_scans_due_to_scheduled_start :: "32 word"
  params_for_network_quality :: ParamsForNetworkQuality
  last_non_delayable_request_start :: "int option"
  last_non_delayable_request_end :: "int option"
  effective_connection_type :: EffectiveConnectionType
  p2p_connections_count :: "32 word"
  p2p_connections_count_active_timestamp :: "int option"
  p2p_connections_count_end_timestamp :: "int option"
  network_quality_estimator :: bool

datatype Task =
    StartTask nat
  | LoadAnyStartablePendingRequestsTask ClientId RequestStartTrigger

text \<open>The two memories, the task runner's queue, and a log of the resume callbacks run.\<close>

record Memory =
  url_requests :: "nat \<Rightarrow> URLRequest"
  handles :: "nat \<Rightarrow> ScheduledResourceRequestImpl"
  posted_tasks :: "Task list"
  resume_callbacks_run :: "nat list"

text \<open>A client together with the memory its methods act on.\<close>

record World = Memory +
  client :: Client

text \<open>
  What the scheduler reads from its collaborators, none of which is among the sources:
  the tick clock of the scheduler and \<^verbatim>\<open>base::TimeTicks::Now()\<close>, the \<^verbatim>\<open>enabled_\<close>
  flag fixed at construction, the HTTP server properties, the network quality estimator's
  HTTP RTT, the feature list, the \<^verbatim>\<open>ResourceSchedulerParamsManager\<close>, and the two
  constants \<^verbatim>\<open>net::LOAD_IGNORE_LIMITS\<close> and \<^verbatim>\<open>mojom::kBrowserProcessId\<close>. The field
  \<open>max_wait_time_p2p_connections\<close> is the value that the source reads from the
  manager's optional with \<^verbatim>\<open>value()\<close>.
\<close>

record Env =
  NowTicks :: int
  TimeTicks_Now :: int
  enabled :: bool
  SupportsRequestPriority :: "string \<times> string \<times> nat \<Rightarrow> string \<Rightarrow> bool"
  GetHttpRTT :: "int option"
  kPauseBrowserInitiatedHeavyTrafficForP2P :: bool
  TimeToPauseHeavyBrowserInitiatedRequestsAfterEndOfP2PConnections :: int
  max_wait_time_p2p_connections :: int
  CanThrottleNetworkTrafficAnnotationHash :: "32 word \<Rightarrow> bool"
  GetParamsForEffectiveConnectionType :: "EffectiveConnectionType \<Rightarrow> ParamsForNetworkQuality"
  LOAD_IGNORE_LIMITS :: "32 word"
  kBrowserProcessId :: "32 word"

definition SchemeHostPort :: "GURL \<Rightarrow> string \<times> string \<times> nat" where
  "SchemeHostPort u = (gurl_scheme u, gurl_host u, gurl_port u)"

definition HostPortPair_FromURL :: "GURL \<Rightarrow> string \<times> nat" where
  "HostPortPair_FromURL u = (gurl_host u, gurl_port u)"

definition url_request :: "'a Memory_scheme \<Rightarrow> nat \<Rightarrow> URLRequest" where
  "url_request m r = url_requests m (request (handles m r))"

subsection \<open>ScheduledResourceRequestImpl\<close>

definition NewScheduledResourceRequestImpl ::
  "ClientId \<Rightarrow> nat \<Rightarrow> RequestPriorityParams \<Rightarrow> bool \<Rightarrow> nat \<Rightarrow> 'a Memory_scheme
     \<Rightarrow> 'a Memory_scheme" where
  "NewScheduledResourceRequestImpl cid req prio async r m =
     m\<lparr>handles := (handles m)(r :=
          \<lparr>client_id = cid, request = req, ready = False, deferred = False,
           is_async = async, attributes = kAttributeNone, priority_params = prio,
           fifo_ordering = 0,
           host_port_pair = HostPortPair_FromURL (request_url (url_requests m req))\<rparr>),
       url_requests := (url_requests m)(req := (url_requests m req)\<lparr>user_data := Some r\<rparr>)\<rparr>"

definition ForRequest :: "'a Memory_scheme \<Rightarrow> nat \<Rightarrow> nat option" where
  "ForRequest m req = user_data (url_requests m req)"

definition WillStartRequest :: "nat \<Rightarrow> 'a Memory_scheme \<Rightarrow> 'a Memory_scheme" where
  "WillStartRequest r m =
     m\<lparr>handles := (handles m)(r := (handles m r)\<lparr>deferred := \<not> ready (handles m r)\<rparr>)\<rparr>"

definition Start :: "StartMode \<Rightarrow> nat \<Rightarrow> 'a Memory_scheme \<Rightarrow> 'a Memory_scheme" where
  "Start start_mode r m =
     (if \<not> status_is_success (url_request m r) then m
      else if deferred (handles m r) then
        (if start_mode = START_ASYNC
         then m\<lparr>posted_tasks := posted_tasks m @ [StartTask r]\<rparr>
         else m\<lparr>handles := (handles m)(r := (handles m r)\<lparr>deferred := False, ready := True\<rparr>),
                resume_callbacks_run := resume_callbacks_run m @ [r]\<rparr>)
      else m\<lparr>handles := (handles m)(r := (handles m r)\<lparr>ready := True\<rparr>)\<rparr>)"

definition set_request_priority_params ::
  "nat \<Rightarrow> RequestPriorityParams \<Rightarrow> 'a Memory_scheme \<Rightarrow> 'a Memory_scheme" where
  "set_request_priority_params r p m =
     m\<lparr>handles := (handles m)(r := (handles m r)\<lparr>priority_params := p\<rparr>)\<rparr>"

definition set_fifo_ordering :: "nat \<Rightarrow> 32 word \<Rightarrow> 'a Memory_scheme \<Rightarrow> 'a Memory_scheme" where
  "set_fifo_ordering r f m =
     m\<lparr>handles := (handles m)(r := (handles m r)\<lparr>fifo_ordering := f\<rparr>)\<rparr>"

definition set_attributes ::
  "nat \<Rightarrow> RequestAttributes \<Rightarrow> 'a Memory_scheme \<Rightarrow> 'a Memory_scheme" where
  "set_attributes r a m =
     m\<lparr>handles := (handles m)(r := (handles m r)\<lparr>attributes := a\<rparr>)\<rparr>"

definition SetPriority :: "nat \<Rightarrow> RequestPriority \<Rightarrow> 'a Memory_scheme \<Rightarrow> 'a Memory_scheme" where
  "SetPriority req p m =
     m\<lparr>url_requests := (url_requests m)(req := (url_requests m req)\<lparr>request_priority := p\<rparr>)\<rparr>"

subsection \<open>ScheduledResourceSorter and RequestQueue\<close>

definition ScheduledResourceSorter ::
  "ScheduledResourceRequestImpl \<Rightarrow> ScheduledResourceRequestImpl \<Rightarrow> bool" where
  "ScheduledResourceSorter a b =
     (if priority_params a \<noteq> priority_params b
      then GreaterThan (priority_params a) (priority_params b)
      else fifo_ordering a < fifo_ordering b)"

text \<open>\<^verbatim>\<open>std::multiset::insert\<close>: the new element goes before the first element it is
  ordered before, so after every element equivalent to it.\<close>

fun multiset_insert ::
  "(nat \<Rightarrow> ScheduledResourceRequestImpl) \<Rightarrow> nat \<Rightarrow> nat list \<Rightarrow> nat list" where
  "multiset_insert hs r [] = [r]"
| "multiset_insert hs r (x # xs) =
     (if ScheduledResourceSorter (hs r) (hs x) then r # x # xs
      else x # multiset_insert hs r xs)"

definition IsQueued :: "RequestQueue \<Rightarrow> nat \<Rightarrow> bool" where
  "IsQueued q r = (r \<in> set (queue q))"

definition IsEmpty :: "RequestQueue \<Rightarrow> bool" where
  "IsEmpty q = (queue q = [])"

definition MakeFifoOrderingId :: "RequestQueue \<Rightarrow> 32 word \<times> RequestQueue" where
  "MakeFifoOrderingId q =
     (fifo_ordering_ids q + 1, q\<lparr>fifo_ordering_ids := fifo_ordering_ids q + 1\<rparr>)"

definition Insert :: "nat \<Rightarrow> World \<Rightarrow> World" where
  "Insert r w =
     (let (f, q) = MakeFifoOrderingId (pending_requests (client w));
          w1 = set_fifo_ordering r f w
      in w1\<lparr>client := (client w1)\<lparr>pending_requests :=
              q\<lparr>queue := multiset_insert (handles w1) r (queue q)\<rparr>\<rparr>\<rparr>)"

text \<open>\<^verbatim>\<open>Erase\<close> removes the one entry of the request. Its \<^verbatim>\<open>CHECK\<close> that the request is
  queued holds at every call: each caller tests \<^verbatim>\<open>IsQueued\<close> first or takes the request
  from the queue.\<close>

definition Erase :: "nat \<Rightarrow> World \<Rightarrow> World" where
  "Erase r w =
     w\<lparr>client := (client w)\<lparr>pending_requests :=
          (pending_requests (client w))\<lparr>queue := remove1 r (queue (pending_requests (client w)))\<rparr>\<rparr>\<rparr>"

subsection \<open>Client\<close>

datatype ShouldStartReqResult =
    DO_NOT_START_REQUEST_AND_STOP_SEARCHING
  | DO_NOT_START_REQUEST_AND_KEEP_SEARCHING
  | START_REQUEST

definition RequestAttributesAreSet :: "RequestAttributes \<Rightarrow> RequestAttributes \<Rightarrow> bool" where
  "RequestAttributesAreSet request_attributes matching_attributes =
     (request_attributes AND matching_attributes = matching_attributes)"

text \<open>\<^verbatim>\<open>CountRequestsWithAttributes\<close>, the count that the \<^verbatim>\<open>DCHECK\<close>s of
  \<^verbatim>\<open>SetRequestAttributes\<close> compare the cached counters with. The current request may be
  null.\<close>

definition CountRequestsWithAttributes ::
  "RequestAttributes \<Rightarrow> nat option \<Rightarrow> World \<Rightarrow> 64 word" where
  "CountRequestsWithAttributes attrs current_request w =
     (let matches = (\<lambda>r. RequestAttributesAreSet (attributes (handles w r)) attrs);
          in_flight_matching = length (filter matches (in_flight_requests (client w)))
      in if \<not> RequestAttributesAreSet attrs kAttributeInFlight then
           (let pending_matching =
                  length (filter matches (queue (pending_requests (client w))))
            in case current_request of
                 None \<Rightarrow> of_nat (in_flight_matching + pending_matching)
               | Some cur \<Rightarrow>
                   (if cur \<notin> set (in_flight_requests (client w))
                       \<and> cur \<notin> set (queue (pending_requests (client w)))
                       \<and> matches cur
                    then of_nat (in_flight_matching + pending_matching + 1)
                    else of_nat (in_flight_matching + pending_matching)))
         else of_nat in_flight_matching)"

definition SetRequestAttributes :: "nat \<Rightarrow> RequestAttributes \<Rightarrow> World \<Rightarrow> World" where
  "SetRequestAttributes r attrs w =
     (let old_attributes = attributes (handles w r) in
      if old_attributes = attrs then w
      else
        let c = client w;
            d1 = (if RequestAttributesAreSet old_attributes
                       (kAttributeInFlight OR kAttributeDelayable)
                  then in_flight_delayable_count c - 1 else in_flight_delayable_count c);
            l1 = (if RequestAttributesAreSet old_attributes kAttributeLayoutBlocking
                  then total_layout_blocking_count c - 1 else total_layout_blocking_count c);
            d2 = (if RequestAttributesAreSet attrs (kAttributeInFlight OR kAttributeDelayable)
                  then d1 + 1 else d1);
            l2 = (if RequestAttributesAreSet attrs kAttributeLayoutBlocking
                  then l1 + 1 else l1)
        in set_attributes r attrs
             (w\<lparr>client := c\<lparr>in_flight_delayable_count := d2,
                             total_layout_blocking_count := l2\<rparr>\<rparr>))"

definition DetermineRequestAttributes :: "Env \<Rightarrow> World \<Rightarrow> nat \<Rightarrow> RequestAttributes" where
  "DetermineRequestAttributes env w r =
     (let a0 = kAttributeNone;
          a1 = (if r \<in> set (in_flight_requests (client w))
                then a0 OR kAttributeInFlight else a0)
      in if RequestAttributesAreSet (attributes (handles w r)) kAttributeLayoutBlocking
         then a1 OR kAttributeLayoutBlocking
         else if priority_ordinal (request_priority (url_request w r))
                   < priority_ordinal kDelayablePriorityThreshold
         then
           (if delay_requests_on_multiplexed_connections
                 (params_for_network_quality (client w))
            then a1 OR kAttributeDelayable
            else if \<not> SupportsRequestPriority env
                        (SchemeHostPort (request_url (url_request w r)))
                        (network_isolation_key (url_request w r))
            then a1 OR kAttributeDelayable
            else a1)
         else a1)"

fun same_host_loop ::
  "(nat \<Rightarrow> ScheduledResourceRequestImpl) \<Rightarrow> string \<times> nat \<Rightarrow> nat list \<Rightarrow> 64 word \<Rightarrow> bool" where
  "same_host_loop hs active_request_host [] same_host_count = False"
| "same_host_loop hs active_request_host (x # xs) same_host_count =
     (if active_request_host = host_port_pair (hs x)
      then (if same_host_count + 1 \<ge> kMaxNumDelayableRequestsPerHostPerClient then True
            else same_host_loop hs active_request_host xs (same_host_count + 1))
      else same_host_loop hs active_request_host xs same_host_count)"

definition ReachedMaxRequestsPerHostPerClient :: "World \<Rightarrow> string \<times> nat \<Rightarrow> bool \<Rightarrow> bool" where
  "ReachedMaxRequestsPerHostPerClient w active_request_host supports_priority =
     (if supports_priority
         \<and> delay_requests_on_multiplexed_connections (params_for_network_quality (client w))
      then False
      else same_host_loop (handles w) active_request_host (in_flight_requests (client w)) 0)"

text \<open>The end timestamp is read only after the test that it is set. The active timestamp
  is read when the count of peer-to-peer connections is positive;
  \<^verbatim>\<open>OnPeerToPeerConnectionsCountChange\<close> sets it whenever the count becomes positive.\<close>

definition ShouldThrottleBrowserInitiatedRequestDueToP2PConnections ::
  "Env \<Rightarrow> World \<Rightarrow> nat \<Rightarrow> bool" where
  "ShouldThrottleBrowserInitiatedRequestDueToP2PConnections env w r =
     (let c = client w in
      if \<not> kPauseBrowserInitiatedHeavyTrafficForP2P env then False
      else if p2p_connections_count c = 0
              \<and> p2p_connections_count_end_timestamp c = None then False
      else if p2p_connections_count c = 0
              \<and> NowTicks env - the (p2p_connections_count_end_timestamp c)
                  \<ge> TimeToPauseHeavyBrowserInitiatedRequestsAfterEndOfP2PConnections env
           then False
      else if ect_ordinal (effective_connection_type c) \<le> ect_ordinal ECT_OFFLINE
              \<or> ect_ordinal (effective_connection_type c) \<ge> ect_ordinal ECT_4G then False
      else if request_priority (url_request w r) = HIGHEST then False
      else if p2p_connections_count c > 0
              \<and> NowTicks env - the (p2p_connections_count_active_timestamp c)
                  > max_wait_time_p2p_connections env then False
      else if \<not> CanThrottleNetworkTrafficAnnotationHash env
                  (unique_id_hash_code (url_request w r)) then False
      else True)"

text \<open>\<^verbatim>\<open>base::TimeDelta\<close> is not among the sources. Its product with a \<^verbatim>\<open>double\<close> is
  taken to be the product of doubles, truncated to the integer count of the time unit.
  The source reads the HTTP RTT through the pointer to the estimator without testing
  the pointer; the model reads the environment also for a client whose estimator is
  null, where the source dereferences a null pointer.\<close>

definition IsNonDelayableRequestAnticipated :: "Env \<Rightarrow> World \<Rightarrow> bool" where
  "IsNonDelayableRequestAnticipated env w =
     (case http_rtt_multiplier_for_proactive_throttling
             (params_for_network_quality (client w)) of
        None \<Rightarrow> False
      | Some http_rtt_multiplier \<Rightarrow>
          if http_rtt_multiplier \<le> 0 then False
          else (case last_non_delayable_request_start (client w) of
                  None \<Rightarrow> False
                | Some last_start \<Rightarrow>
                    (case GetHttpRTT env of
                       None \<Rightarrow> False
                     | Some http_rtt \<Rightarrow>
                         \<not> (NowTicks env - last_start
                              \<ge> truncate_toward_zero
                                  (double_times (to_double (of_int http_rtt))
                                     http_rtt_multiplier)))))"

definition ShouldStartRequest :: "Env \<Rightarrow> World \<Rightarrow> nat \<Rightarrow> ShouldStartReqResult" where
  "ShouldStartRequest env w r =
     (let c = client w; params = params_for_network_quality c in
      if \<not> enabled env then START_REQUEST
      else if is_browser_client c then
        (if ShouldThrottleBrowserInitiatedRequestDueToP2PConnections env w r
         then DO_NOT_START_REQUEST_AND_KEEP_SEARCHING
         else START_REQUEST)
      else if \<not> is_async (handles w r) then START_REQUEST
      else if \<not> SchemeIsHTTPOrHTTPS (request_url (url_request w r)) then START_REQUEST
      else if (case max_queuing_time params of
                 None \<Rightarrow> False
               | Some t \<Rightarrow> NowTicks env - creation_time (url_request w r) \<ge> t)
           then START_REQUEST
      else
        let priority_delayable = delay_requests_on_multiplexed_connections params;
            supports_priority =
              SupportsRequestPriority env (SchemeHostPort (request_url (url_request w r)))
                (network_isolation_key (url_request w r))
        in
        if \<not> priority_delayable \<and> supports_priority then START_REQUEST
        else if \<not> RequestAttributesAreSet (attributes (handles w r)) kAttributeDelayable
        then START_REQUEST
        else
          let in_flight_size = (of_nat (length (in_flight_requests c)) :: 64 word);
              num_non_delayable_requests_weighted =
                (of_int (truncate_toward_zero
                   (double_times (non_delayable_weight params)
                      (double_of_size_t (in_flight_size - in_flight_delayable_count c))))
                 :: 64 word)
          in
          if in_flight_delayable_count c + num_non_delayable_requests_weighted
               \<ge> max_delayable_requests params
          then DO_NOT_START_REQUEST_AND_STOP_SEARCHING
          else if ReachedMaxRequestsPerHostPerClient w (host_port_pair (handles w r))
                    supports_priority
          then DO_NOT_START_REQUEST_AND_KEEP_SEARCHING
          else if total_layout_blocking_count c \<noteq> 0
                  \<and> in_flight_size - in_flight_delayable_count c
                      > kInFlightNonDelayableRequestCountPerClientThreshold
          then DO_NOT_START_REQUEST_AND_STOP_SEARCHING
          else if total_layout_blocking_count c \<noteq> 0
                  \<and> in_flight_size > 0
                  \<and> in_flight_delayable_count c
                      \<ge> kMaxNumDelayableWhileLayoutBlockingPerClient
          then DO_NOT_START_REQUEST_AND_STOP_SEARCHING
          else if IsNonDelayableRequestAnticipated env w
          then DO_NOT_START_REQUEST_AND_STOP_SEARCHING
          else START_REQUEST)"

definition InsertInFlightRequest :: "Env \<Rightarrow> nat \<Rightarrow> World \<Rightarrow> World" where
  "InsertInFlightRequest env r w =
     (let w1 = w\<lparr>client := (client w)\<lparr>in_flight_requests :=
                   List.insert r (in_flight_requests (client w))\<rparr>\<rparr>
      in SetRequestAttributes r (DetermineRequestAttributes env w1 r) w1)"

definition EraseInFlightRequest :: "nat \<Rightarrow> World \<Rightarrow> World" where
  "EraseInFlightRequest r w =
     SetRequestAttributes r kAttributeNone
       (w\<lparr>client := (client w)\<lparr>in_flight_requests :=
             removeAll r (in_flight_requests (client w))\<rparr>\<rparr>)"

definition ClearInFlightRequests :: "World \<Rightarrow> World" where
  "ClearInFlightRequests w =
     w\<lparr>client := (client w)\<lparr>in_flight_requests := [], in_flight_delayable_count := 0,
                              total_layout_blocking_count := 0\<rparr>\<rparr>"

definition StartRequest ::
  "Env \<Rightarrow> nat \<Rightarrow> StartMode \<Rightarrow> RequestStartTrigger \<Rightarrow> World \<Rightarrow> World" where
  "StartRequest env r start_mode trigger w =
     (let w1 = (if \<not> RequestAttributesAreSet (attributes (handles w r)) kAttributeDelayable
                then w\<lparr>client := (client w)\<lparr>last_non_delayable_request_start :=
                          Some (NowTicks env)\<rparr>\<rparr>
                else w)
      in Start start_mode r (InsertInFlightRequest env r w1))"

definition ScheduleLoadAnyStartablePendingRequests ::
  "RequestStartTrigger \<Rightarrow> World \<Rightarrow> World" where
  "ScheduleLoadAnyStartablePendingRequests trigger w =
     (let w1 = (if num_skipped_scans_due_to_scheduled_start (client w) = 0
                then w\<lparr>posted_tasks := posted_tasks w @
                         [LoadAnyStartablePendingRequestsTask (this_client (client w)) trigger]\<rparr>
                else w)
      in w1\<lparr>client := (client w1)\<lparr>num_skipped_scans_due_to_scheduled_start :=
                num_skipped_scans_due_to_scheduled_start (client w1) + 1\<rparr>\<rparr>)"

lemma queue_Start [simp]:
  "queue (pending_requests (client (Start start_mode r w))) = queue (pending_requests (client w))"
  by (simp add: Start_def)

lemma queue_SetRequestAttributes [simp]:
  "queue (pending_requests (client (SetRequestAttributes r a w)))
     = queue (pending_requests (client w))"
  by (simp add: SetRequestAttributes_def set_attributes_def Let_def)

lemma queue_StartRequest [simp]:
  "queue (pending_requests (client (StartRequest env r start_mode trigger w)))
     = queue (pending_requests (client w))"
  by (simp add: StartRequest_def InsertInFlightRequest_def Let_def)

lemma queue_Erase [simp]:
  "queue (pending_requests (client (Erase r w))) = remove1 r (queue (pending_requests (client w)))"
  by (simp add: Erase_def)

lemma length_remove1_less:
  "r \<in> set xs \<Longrightarrow> length (remove1 r xs) < length xs"
  by (simp add: length_remove1) (cases xs; simp)

text \<open>The loop of \<^verbatim>\<open>LoadAnyStartablePendingRequests\<close>. The iterator is the position
  \<open>i\<close> in the queue; after a start the scan goes back to the first position.\<close>

function LoadAnyStartablePendingRequests_loop ::
  "Env \<Rightarrow> RequestStartTrigger \<Rightarrow> World \<Rightarrow> nat \<Rightarrow> World" where
  "LoadAnyStartablePendingRequests_loop env trigger w i =
     (if i \<ge> length (queue (pending_requests (client w))) then w
      else
        (case ShouldStartRequest env w (queue (pending_requests (client w)) ! i) of
           START_REQUEST \<Rightarrow>
             LoadAnyStartablePendingRequests_loop env trigger
               (StartRequest env (queue (pending_requests (client w)) ! i) START_ASYNC trigger
                  (Erase (queue (pending_requests (client w)) ! i) w)) 0
         | DO_NOT_START_REQUEST_AND_KEEP_SEARCHING \<Rightarrow>
             LoadAnyStartablePendingRequests_loop env trigger w (Suc i)
         | DO_NOT_START_REQUEST_AND_STOP_SEARCHING \<Rightarrow> w))"
  by pat_completeness auto
termination
  by (relation "measures [\<lambda>(env, trigger, w, i). length (queue (pending_requests (client w))),
                          \<lambda>(env, trigger, w, i). length (queue (pending_requests (client w))) - i]")
     (auto simp: length_remove1_less)

declare LoadAnyStartablePendingRequests_loop.simps [simp del]

definition LoadAnyStartablePendingRequests ::
  "Env \<Rightarrow> RequestStartTrigger \<Rightarrow> World \<Rightarrow> World" where
  "LoadAnyStartablePendingRequests env trigger w =
     LoadAnyStartablePendingRequests_loop env trigger
       (w\<lparr>client := (client w)\<lparr>num_skipped_scans_due_to_scheduled_start := 0\<rparr>\<rparr>) 0"

definition Client_ScheduleRequest :: "Env \<Rightarrow> nat \<Rightarrow> World \<Rightarrow> World" where
  "Client_ScheduleRequest env r w =
     (let w1 = SetRequestAttributes r (DetermineRequestAttributes env w r) w in
      if ShouldStartRequest env w1 r = START_REQUEST
      then StartRequest env r START_SYNC NONE w1
      else Insert r w1)"

definition Client_RemoveRequest :: "Env \<Rightarrow> nat \<Rightarrow> World \<Rightarrow> World" where
  "Client_RemoveRequest env r w =
     (if IsQueued (pending_requests (client w)) r then Erase r w
      else
        let w1 = (if \<not> RequestAttributesAreSet (attributes (handles w r)) kAttributeDelayable
                  then w\<lparr>client := (client w)\<lparr>last_non_delayable_request_end :=
                            Some (NowTicks env)\<rparr>\<rparr>
                  else w)
        in LoadAnyStartablePendingRequests env COMPLETION_POST_BODY
             (EraseInFlightRequest r w1))"

function StartAndRemoveAllRequests_loop :: "Env \<Rightarrow> World \<Rightarrow> World" where
  "StartAndRemoveAllRequests_loop env w =
     (case queue (pending_requests (client w)) of
        [] \<Rightarrow> w
      | r # rest \<Rightarrow>
          StartAndRemoveAllRequests_loop env
            (StartRequest env r START_ASYNC CLIENT_KILL (Erase r w)))"
  by pat_completeness auto
termination
  by (relation "measure (\<lambda>(env, w). length (queue (pending_requests (client w))))") auto

declare StartAndRemoveAllRequests_loop.simps [simp del]

definition StartAndRemoveAllRequests :: "Env \<Rightarrow> World \<Rightarrow> nat list \<times> World" where
  "StartAndRemoveAllRequests env w =
     (let w1 = StartAndRemoveAllRequests_loop env w;
          unowned = in_flight_requests (client w1);
          w2 = fold (\<lambda>r. set_attributes r kAttributeNone) unowned w1
      in (unowned, ClearInFlightRequests w2))"

definition Client_ReprioritizeRequest ::
  "Env \<Rightarrow> nat \<Rightarrow> RequestPriorityParams \<Rightarrow> RequestPriorityParams \<Rightarrow> World \<Rightarrow> World" where
  "Client_ReprioritizeRequest env r old_priority_params new_priority_params w =
     (let w1 = SetPriority (request (handles w r)) (priority new_priority_params) w;
          w2 = set_request_priority_params r new_priority_params w1;
          w3 = SetRequestAttributes r (DetermineRequestAttributes env w2 r) w2
      in if \<not> IsQueued (pending_requests (client w3)) r then w3
         else
           let w4 = Insert r (Erase r w3) in
           if priority_ordinal (priority new_priority_params)
                > priority_ordinal (priority old_priority_params)
           then ScheduleLoadAnyStartablePendingRequests REQUEST_REPRIORITIZED w4
           else w4)"

text \<open>The observers of the network quality estimator and the two timers. The observers are
  registered only when the estimator is not null. Starting and stopping the timer that
  fires after the last peer-to-peer connection has ended is not modelled; when it fires, a
  pass runs.\<close>

definition UpdateParamsForNetworkQuality :: "Env \<Rightarrow> Client \<Rightarrow> Client" where
  "UpdateParamsForNetworkQuality env c =
     c\<lparr>params_for_network_quality :=
         GetParamsForEffectiveConnectionType env
           (if network_quality_estimator c then effective_connection_type c
            else ECT_UNKNOWN)\<rparr>"

definition OnLongQueuedRequestsDispatchTimerFired :: "Env \<Rightarrow> World \<Rightarrow> World" where
  "OnLongQueuedRequestsDispatchTimerFired env w =
     LoadAnyStartablePendingRequests env LONG_QUEUED_REQUESTS_TIMER_FIRED w"

definition OnEffectiveConnectionTypeChanged ::
  "Env \<Rightarrow> EffectiveConnectionType \<Rightarrow> World \<Rightarrow> World" where
  "OnEffectiveConnectionTypeChanged env ect w =
     (if effective_connection_type (client w) = ect then w
      else LoadAnyStartablePendingRequests env EFFECTIVE_CONNECTION_TYPE_CHANGED
             (w\<lparr>client := UpdateParamsForNetworkQuality env
                             ((client w)\<lparr>effective_connection_type := ect\<rparr>)\<rparr>))"

definition OnPeerToPeerConnectionsCountChange :: "Env \<Rightarrow> 32 word \<Rightarrow> World \<Rightarrow> World" where
  "OnPeerToPeerConnectionsCountChange env count w =
     (let c = client w in
      if p2p_connections_count c = count then w
      else
        let c1 = (if p2p_connections_count c > 0 \<and> count = 0
                  then c\<lparr>p2p_connections_count_end_timestamp := Some (NowTicks env)\<rparr>
                  else c);
            c2 = c1\<lparr>p2p_connections_count := count\<rparr>;
            c3 = (if p2p_connections_count c2 > 0
                     \<and> p2p_connections_count_active_timestamp c2 = None
                  then c2\<lparr>p2p_connections_count_active_timestamp :=
                            Some (TimeTicks_Now env)\<rparr>
                  else c2);
            c4 = (if p2p_connections_count c3 = 0
                     \<and> p2p_connections_count_active_timestamp c3 \<noteq> None
                  then c3\<lparr>p2p_connections_count_active_timestamp := None\<rparr>
                  else c3)
        in LoadAnyStartablePendingRequests env PEER_TO_PEER_CONNECTIONS_COUNT_CHANGED
             (w\<lparr>client := c4\<rparr>))"

definition OnP2PConnectionsCountEndedTimerFired :: "Env \<Rightarrow> World \<Rightarrow> World" where
  "OnP2PConnectionsCountEndedTimerFired env w =
     LoadAnyStartablePendingRequests env PEER_TO_PEER_CONNECTIONS_COUNT_CHANGED w"

text \<open>
  Modelled from the spec: the parameter table is an external collaborator
  (\<^verbatim>\<open>ResourceSchedulerParamsManager\<close> is not among the sources). This is the fixed
  default set a client has without a network quality estimator: ten delayable requests
  per client (the bound the comment above \<^verbatim>\<open>ShouldStartRequest\<close> names), no weight
  for non-delayable requests, multiplexed-connection delay mode off, no maximum queuing
  time and no proactive throttling.
\<close>

definition DefaultParamsForNetworkQuality :: ParamsForNetworkQuality where
  "DefaultParamsForNetworkQuality =
     \<lparr>max_delayable_requests = 10, non_delayable_weight = 0,
      delay_requests_on_multiplexed_connections = False, max_queuing_time = None,
      http_rtt_multiplier_for_proactive_throttling = None\<rparr>"

text \<open>The constructor. \<open>estimator\<close> is \<open>None\<close> for a null pointer and otherwise holds the
  effective connection type that the estimator reports.\<close>

definition NewClient :: "Env \<Rightarrow> ClientId \<Rightarrow> bool \<Rightarrow> EffectiveConnectionType option
     \<Rightarrow> Client" where
  "NewClient env cid browser estimator =
     (let c = \<lparr>this_client = cid,
                pending_requests = \<lparr>queue = [], fifo_ordering_ids = 0\<rparr>,
                in_flight_requests = [],
                is_browser_client = browser,
                in_flight_delayable_count = 0,
                total_layout_blocking_count = 0,
                num_skipped_scans_due_to_scheduled_start = 0,
                params_for_network_quality = DefaultParamsForNetworkQuality,
                last_non_delayable_request_start = None,
                last_non_delayable_request_end = None,
                effective_connection_type = ECT_UNKNOWN,
                p2p_connections_count = 0,
                p2p_connections_count_active_timestamp = None,
                p2p_connections_count_end_timestamp = None,
                network_quality_estimator = (estimator \<noteq> None)\<rparr>
      in case estimator of
           None \<Rightarrow> c
         | Some ect \<Rightarrow>
             UpdateParamsForNetworkQuality env (c\<lparr>effective_connection_type := ect\<rparr>))"

subsection \<open>ResourceScheduler\<close>

text \<open>The registry. The periodic timer for long-queued requests is not modelled.\<close>

record ResourceScheduler = Memory +
  client_map :: "ClientId \<Rightarrow> Client option"
  unowned_requests :: "nat list"

definition world_of :: "ResourceScheduler \<Rightarrow> Client \<Rightarrow> World" where
  "world_of s c =
     \<lparr>url_requests = url_requests s, handles = handles s, posted_tasks = posted_tasks s,
      resume_callbacks_run = resume_callbacks_run s, client = c\<rparr>"

text \<open>Runs a method of the client registered under \<open>cid\<close> and stores what it wrote.\<close>

definition with_client ::
  "ClientId \<Rightarrow> Client \<Rightarrow> (World \<Rightarrow> World) \<Rightarrow> ResourceScheduler \<Rightarrow> ResourceScheduler" where
  "with_client cid c f s =
     (let w = f (world_of s c) in
      s\<lparr>url_requests := url_requests w, handles := handles w,
        posted_tasks := posted_tasks w, resume_callbacks_run := resume_callbacks_run w,
        client_map := (client_map s)(cid \<mapsto> client w)\<rparr>)"

definition MakeClientId :: "32 word \<Rightarrow> 32 word \<Rightarrow> ClientId" where
  "MakeClientId child_id route_id = push_bit 32 (scast child_id) OR scast route_id"

text \<open>\<open>r\<close> is the address of the handle that \<^verbatim>\<open>new\<close> returns.\<close>

definition ScheduleRequest ::
  "Env \<Rightarrow> 32 word \<Rightarrow> 32 word \<Rightarrow> bool \<Rightarrow> nat \<Rightarrow> nat \<Rightarrow> ResourceScheduler \<Rightarrow> ResourceScheduler" where
  "ScheduleRequest env child_id route_id async req r s =
     (let cid = MakeClientId child_id route_id;
          s1 = NewScheduledResourceRequestImpl cid req
                 \<lparr>priority = request_priority (url_requests s req), intra_priority = 0\<rparr>
                 async r s
      in case client_map s1 cid of
           None \<Rightarrow>
             Start START_SYNC r (s1\<lparr>unowned_requests := List.insert r (unowned_requests s1)\<rparr>)
         | Some c \<Rightarrow> with_client cid c (Client_ScheduleRequest env r) s1)"

definition RemoveRequest :: "Env \<Rightarrow> nat \<Rightarrow> ResourceScheduler \<Rightarrow> ResourceScheduler" where
  "RemoveRequest env r s =
     (if r \<in> set (unowned_requests s)
      then s\<lparr>unowned_requests := removeAll r (unowned_requests s)\<rparr>
      else case client_map s (client_id (handles s r)) of
             None \<Rightarrow> s
           | Some c \<Rightarrow> with_client (client_id (handles s r)) c (Client_RemoveRequest env r) s)"

text \<open>The destructor of the handle.\<close>

definition DeleteScheduledResourceRequestImpl ::
  "Env \<Rightarrow> nat \<Rightarrow> ResourceScheduler \<Rightarrow> ResourceScheduler" where
  "DeleteScheduledResourceRequestImpl env r s =
     RemoveRequest env r
       (s\<lparr>url_requests := (url_requests s)(request (handles s r) :=
             (url_requests s (request (handles s r)))\<lparr>user_data := None\<rparr>)\<rparr>)"

definition OnClientCreated ::
  "Env \<Rightarrow> 32 word \<Rightarrow> 32 word \<Rightarrow> EffectiveConnectionType option \<Rightarrow> ResourceScheduler
     \<Rightarrow> ResourceScheduler" where
  "OnClientCreated env child_id route_id estimator s =
     (let cid = MakeClientId child_id route_id;
          c = NewClient env cid (child_id = kBrowserProcessId env) estimator
      in s\<lparr>client_map := (client_map s)(cid \<mapsto> c)\<rparr>)"

text \<open>\<open>None\<close> is the failed \<^verbatim>\<open>CHECK\<close> that the client is registered.\<close>

definition OnClientDeleted ::
  "Env \<Rightarrow> 32 word \<Rightarrow> 32 word \<Rightarrow> ResourceScheduler \<Rightarrow> ResourceScheduler option" where
  "OnClientDeleted env child_id route_id s =
     (let cid = MakeClientId child_id route_id in
      case client_map s cid of
        None \<Rightarrow> None
      | Some c \<Rightarrow>
          (let (client_unowned_requests, w) = StartAndRemoveAllRequests env (world_of s c) in
           Some (s\<lparr>url_requests := url_requests w, handles := handles w,
                   posted_tasks := posted_tasks w,
                   resume_callbacks_run := resume_callbacks_run w,
                   unowned_requests :=
                     fold List.insert client_unowned_requests (unowned_requests s),
                   client_map := (client_map s)(cid := None)\<rparr>)))"

definition ReprioritizeRequest ::
  "Env \<Rightarrow> nat \<Rightarrow> RequestPriority \<Rightarrow> int \<Rightarrow> ResourceScheduler \<Rightarrow> ResourceScheduler" where
  "ReprioritizeRequest env req new_priority new_intra_priority_value s =
     (if load_flags (url_requests s req) AND LOAD_IGNORE_LIMITS env \<noteq> 0 then s
      else case ForRequest s req of
             None \<Rightarrow> SetPriority req new_priority s
           | Some r \<Rightarrow>
               (let new_priority_params =
                      \<lparr>priority = new_priority, intra_priority = new_intra_priority_value\<rparr>;
                    old_priority_params = priority_params (handles s r)
                in if old_priority_params = new_priority_params then s
                   else case client_map s (client_id (handles s r)) of
                          None \<Rightarrow>
                            set_request_priority_params r new_priority_params
                              (SetPriority req (priority new_priority_params) s)
                        | Some c \<Rightarrow>
                            with_client (client_id (handles s r)) c
                              (Client_ReprioritizeRequest env r old_priority_params
                                 new_priority_params) s))"

text \<open>The overload without an intra-priority keeps the one the handle has.\<close>

definition ReprioritizeRequest_same_intra_priority ::
  "Env \<Rightarrow> nat \<Rightarrow> RequestPriority \<Rightarrow> ResourceScheduler \<Rightarrow> ResourceScheduler" where
  "ReprioritizeRequest_same_intra_priority env req new_priority s =
     (let current_intra_priority =
            (case ForRequest s req of
               None \<Rightarrow> 0
             | Some r \<Rightarrow> intra_priority (priority_params (handles s r)))
      in ReprioritizeRequest env req new_priority current_intra_priority s)"

subsection \<open>Concrete states\<close>

text \<open>An environment in which no host supports request priorities and the parameters are
  the default ones for every effective connection type, requests over HTTP, a renderer
  client with an estimator and nothing in flight, and a scheduler with no registered
  client.\<close>

definition example_env :: Env where
  "example_env =
     \<lparr>NowTicks = 0, TimeTicks_Now = 0, enabled = True,
      SupportsRequestPriority = (\<lambda>_ _. False),
      GetHttpRTT = None, kPauseBrowserInitiatedHeavyTrafficForP2P = False,
      TimeToPauseHeavyBrowserInitiatedRequestsAfterEndOfP2PConnections = 0,
      max_wait_time_p2p_connections = 0,
      CanThrottleNetworkTrafficAnnotationHash = (\<lambda>_. False),
      GetParamsForEffectiveConnectionType = (\<lambda>_. DefaultParamsForNetworkQuality),
      LOAD_IGNORE_LIMITS = 64, kBrowserProcessId = 0\<rparr>"

definition example_request :: "string \<Rightarrow> RequestPriority \<Rightarrow> URLRequest" where
  "example_request h p =
     \<lparr>request_url = \<lparr>gurl_scheme = ''http'', gurl_host = h, gurl_port = 80\<rparr>,
      request_priority = p, creation_time = 0, load_flags = 0, status_is_success = True,
      unique_id_hash_code = 0, network_isolation_key = [], user_data = None\<rparr>"

definition ignore_limits_request :: URLRequest where
  "ignore_limits_request = (example_request ''a.test'' HIGHEST)\<lparr>load_flags := 64\<rparr>"

definition cancelled_request :: URLRequest where
  "cancelled_request = (example_request ''a.test'' LOW)\<lparr>status_is_success := False\<rparr>"

definition blank_handle :: ScheduledResourceRequestImpl where
  "blank_handle =
     \<lparr>client_id = 0, request = 0, ready = False, deferred = False, is_async = False,
      attributes = 0, priority_params = \<lparr>priority = THROTTLED, intra_priority = 0\<rparr>,
      fifo_ordering = 0, host_port_pair = ([], 0)\<rparr>"

definition example_world :: "(nat \<Rightarrow> URLRequest) \<Rightarrow> World" where
  "example_world reqs =
     \<lparr>url_requests = reqs, handles = (\<lambda>_. blank_handle), posted_tasks = [],
      resume_callbacks_run = [],
      client = NewClient example_env 0 False (Some ECT_UNKNOWN)\<rparr>"

definition example_scheduler :: "(nat \<Rightarrow> URLRequest) \<Rightarrow> ResourceScheduler" where
  "example_scheduler reqs =
     \<lparr>url_requests = reqs, handles = (\<lambda>_. blank_handle), posted_tasks = [],
      resume_callbacks_run = [], client_map = (\<lambda>_. None), unowned_requests = []\<rparr>"

text \<open>What \<^verbatim>\<open>ResourceScheduler::ScheduleRequest\<close> does for a registered client: it
  constructs the handle (here at the address of its request) and passes it to the
  client.\<close>

definition submit :: "Env \<Rightarrow> bool \<Rightarrow> nat \<Rightarrow> World \<Rightarrow> World" where
  "submit env async r w =
     Client_ScheduleRequest env r
       (NewScheduledResourceRequestImpl (this_client (client w)) r
          \<lparr>priority = request_priority (url_requests w r), intra_priority = 0\<rparr> async r w)"

subsection \<open>Conditions of the rules of ShouldStartRequest\<close>

text \<open>Names for three conditions that \<^verbatim>\<open>ShouldStartRequest\<close> tests inline: that none of
  its rules before the two caps returns (the scheduler is enabled, the client is a
  renderer, the request is asynchronous, over HTTP or HTTPS, not queued for too long, not
  exempt for a host with request priorities, and marked delayable); the global cap on
  delayable requests; and the cap per host.\<close>

definition reaches_delayable_rules :: "Env \<Rightarrow> World \<Rightarrow> nat \<Rightarrow> bool" where
  "reaches_delayable_rules env w r =
     (enabled env \<and> \<not> is_browser_client (client w) \<and> is_async (handles w r)
      \<and> SchemeIsHTTPOrHTTPS (request_url (url_request w r))
      \<and> \<not> (case max_queuing_time (params_for_network_quality (client w)) of
               None \<Rightarrow> False
             | Some t \<Rightarrow> NowTicks env - creation_time (url_request w r) \<ge> t)
      \<and> \<not> (\<not> delay_requests_on_multiplexed_connections (params_for_network_quality (client w))
            \<and> SupportsRequestPriority env (SchemeHostPort (request_url (url_request w r)))
                 (network_isolation_key (url_request w r)))
      \<and> RequestAttributesAreSet (attributes (handles w r)) kAttributeDelayable)"

definition global_delayable_cap_reached :: "World \<Rightarrow> bool" where
  "global_delayable_cap_reached w =
     (in_flight_delayable_count (client w)
        + of_int (truncate_toward_zero
            (double_times (non_delayable_weight (params_for_network_quality (client w)))
               (double_of_size_t (of_nat (length (in_flight_requests (client w)))
                                    - in_flight_delayable_count (client w)))))
      \<ge> max_delayable_requests (params_for_network_quality (client w)))"

definition per_host_cap_reached :: "Env \<Rightarrow> World \<Rightarrow> nat \<Rightarrow> bool" where
  "per_host_cap_reached env w r =
     ReachedMaxRequestsPerHostPerClient w (host_port_pair (handles w r))
       (SupportsRequestPriority env (SchemeHostPort (request_url (url_request w r)))
          (network_isolation_key (url_request w r)))"

subsection \<open>Scenarios\<close>

text \<open>Ten LOW requests, six to one host and four to another, and an eleventh to the first
  host; eight requests of one priority to one host; and, from eight IDLE requests, the
  re-prioritization of the pending request 8, the removal of the in-flight request 1 and
  the re-prioritization of the pending request 7.\<close>

definition two_hosts :: "nat \<Rightarrow> URLRequest" where
  "two_hosts r = (if 7 \<le> r \<and> r \<le> 10 then example_request ''b.test'' LOW
                  else example_request ''a.test'' LOW)"

definition eleven_submitted :: World where
  "eleven_submitted =
     fold (submit example_env True) [1, 2, 3, 4, 5, 6, 7, 8, 9, 10, 11] (example_world two_hosts)"

definition eight_submitted :: "RequestPriority \<Rightarrow> World" where
  "eight_submitted p =
     fold (submit example_env True) [1, 2, 3, 4, 5, 6, 7, 8]
       (example_world (\<lambda>_. example_request ''a.test'' p))"

definition two_passes_posted :: World where
  "two_passes_posted =
     Client_ReprioritizeRequest example_env 7
       \<lparr>priority = IDLE, intra_priority = 0\<rparr> \<lparr>priority = LOWEST, intra_priority = 0\<rparr>
       (Client_RemoveRequest example_env 1
          (Client_ReprioritizeRequest example_env 8
             \<lparr>priority = IDLE, intra_priority = 0\<rparr> \<lparr>priority = LOWEST, intra_priority = 0\<rparr>
             (eight_submitted IDLE)))"

subsection \<open>Tracked requests and reachable states\<close>

text \<open>The requests a client tracks are those in flight and those pending. A tracked state
  is well formed when no request is listed twice, none is both in flight and pending, no
  tracked request is marked layout-blocking, no pending request is marked in flight and
  delayable, and the two cached counters agree with the attributes.\<close>

definition IFD :: RequestAttributes where
  "IFD = kAttributeInFlight OR kAttributeDelayable"

definition tracked :: "World \<Rightarrow> nat set" where
  "tracked w = set (in_flight_requests (client w)) \<union> set (queue (pending_requests (client w)))"

definition well_tracked :: "World \<Rightarrow> bool" where
  "well_tracked w =
     (distinct (in_flight_requests (client w))
      \<and> distinct (queue (pending_requests (client w)))
      \<and> set (in_flight_requests (client w)) \<inter> set (queue (pending_requests (client w))) = {}
      \<and> (\<forall>r \<in> tracked w.
            \<not> RequestAttributesAreSet (attributes (handles w r)) kAttributeLayoutBlocking)
      \<and> (\<forall>r \<in> set (queue (pending_requests (client w))).
            \<not> RequestAttributesAreSet (attributes (handles w r)) IFD)
      \<and> in_flight_delayable_count (client w)
          = of_nat (length (filter (\<lambda>r. RequestAttributesAreSet (attributes (handles w r)) IFD)
                              (in_flight_requests (client w))))
      \<and> total_layout_blocking_count (client w) = 0)"

text \<open>The states of a client that its callers can bring about: the scheduler constructs a
  handle at an address that the client does not track and submits it; it removes and
  re-prioritizes tracked handles; passes run, directly or from a posted task; the client is
  drained when it is deleted. Between these the loader calls \<^verbatim>\<open>WillStartRequest\<close>,
  posted start tasks run, the estimator reports a new effective connection type or a new
  count of peer-to-peer connections, and the network stack changes its requests.\<close>

inductive reachable :: "World \<Rightarrow> bool" where
  created:
    "reachable \<lparr>url_requests = u, handles = h, posted_tasks = ts, resume_callbacks_run = l,
                client = NewClient env cid browser estimator\<rparr>"
| scheduled:
    "reachable w \<Longrightarrow> r \<notin> tracked w \<Longrightarrow>
     reachable (Client_ScheduleRequest env r
                  (NewScheduledResourceRequestImpl cid req prio async r w))"
| removed:
    "reachable w \<Longrightarrow> r \<in> tracked w \<Longrightarrow> reachable (Client_RemoveRequest env r w)"
| reprioritized:
    "reachable w \<Longrightarrow> r \<in> tracked w \<Longrightarrow>
     reachable (Client_ReprioritizeRequest env r old_priority_params new_priority_params w)"
| pass:
    "reachable w \<Longrightarrow> reachable (LoadAnyStartablePendingRequests env trigger w)"
| pass_scheduled:
    "reachable w \<Longrightarrow> reachable (ScheduleLoadAnyStartablePendingRequests trigger w)"
| drained:
    "reachable w \<Longrightarrow> reachable (snd (StartAndRemoveAllRequests env w))"
| will_start:
    "reachable w \<Longrightarrow> reachable (WillStartRequest r w)"
| start_task_run:
    "reachable w \<Longrightarrow> reachable (Start START_SYNC r w)"
| connection_type_changed:
    "reachable w \<Longrightarrow> reachable (OnEffectiveConnectionTypeChanged env ect w)"
| p2p_connections_changed:
    "reachable w \<Longrightarrow> reachable (OnPeerToPeerConnectionsCountChange env count w)"
| requests_changed:
    "reachable w \<Longrightarrow> reachable (w\<lparr>url_requests := u\<rparr>)"
| tasks_taken:
    "reachable w \<Longrightarrow> reachable (w\<lparr>posted_tasks := ts\<rparr>)"

subsection \<open>The order of the pending queue\<close>

text \<open>The queue is sorted when no request is ordered before one that stands ahead of it.
  A request precedes another in a list when it stands ahead of it. The state
  \<open>priority_updated\<close> is the one in which \<^verbatim>\<open>Client::ReprioritizeRequest\<close> recomputes
  the attributes: the priority of the request and the key of the handle are already set.
  In \<open>eight_one_promoted\<close> the in-flight request 1 of eight LOW requests has been
  re-prioritized to HIGHEST.\<close>

definition queue_sorted :: "World \<Rightarrow> bool" where
  "queue_sorted w =
     sorted_wrt (\<lambda>x y. \<not> ScheduledResourceSorter (handles w y) (handles w x))
       (queue (pending_requests (client w)))"

definition precedes :: "nat \<Rightarrow> nat \<Rightarrow> nat list \<Rightarrow> bool" where
  "precedes x y xs = (x \<in> set (takeWhile (\<lambda>z. z \<noteq> y) xs) \<and> y \<in> set xs)"

definition eight_one_promoted :: World where
  "eight_one_promoted =
     Client_ReprioritizeRequest example_env 1
       \<lparr>priority = LOW, intra_priority = 0\<rparr> \<lparr>priority = HIGHEST, intra_priority = 0\<rparr>
       (eight_submitted LOW)"

definition priority_updated ::
  "nat \<Rightarrow> RequestPriorityParams \<Rightarrow> World \<Rightarrow> World" where
  "priority_updated r new_priority_params w =
     set_request_priority_params r new_priority_params
       (SetPriority (request (handles w r)) (priority new_priority_params) w)"

subsection \<open>Requests that the admission rules do not tell apart\<close>

text \<open>Two requests have the same admission inputs when \<^verbatim>\<open>ShouldStartRequest\<close> reads the
  same values from both, except that the first may have been created earlier. In the
  scenarios, request 7 of eight IDLE requests is re-prioritized to THROTTLED and back to
  IDLE; seven LOW requests are submitted; and the client with eight LOW requests learns at
  time 0 of an effective connection type whose parameters have a maximum queuing time of
  10, which the requests exceed at time 100.\<close>

definition same_admission_inputs :: "World \<Rightarrow> nat \<Rightarrow> nat \<Rightarrow> bool" where
  "same_admission_inputs w x y =
     (is_async (handles w x) = is_async (handles w y)
      \<and> host_port_pair (handles w x) = host_port_pair (handles w y)
      \<and> RequestAttributesAreSet (attributes (handles w x)) kAttributeDelayable
          = RequestAttributesAreSet (attributes (handles w y)) kAttributeDelayable
      \<and> request_url (url_request w x) = request_url (url_request w y)
      \<and> network_isolation_key (url_request w x) = network_isolation_key (url_request w y)
      \<and> request_priority (url_request w x) = request_priority (url_request w y)
      \<and> unique_id_hash_code (url_request w x) = unique_id_hash_code (url_request w y)
      \<and> creation_time (url_request w x) \<le> creation_time (url_request w y))"

definition fifo_reset_before :: World where
  "fifo_reset_before =
     Client_ReprioritizeRequest example_env 7
       \<lparr>priority = THROTTLED, intra_priority = 0\<rparr> \<lparr>priority = IDLE, intra_priority = 0\<rparr>
       (Client_ReprioritizeRequest example_env 7
          \<lparr>priority = IDLE, intra_priority = 0\<rparr> \<lparr>priority = THROTTLED, intra_priority = 0\<rparr>
          (eight_submitted IDLE))"

definition seven_submitted :: World where
  "seven_submitted =
     fold (submit example_env True) [1, 2, 3, 4, 5, 6, 7]
       (example_world (\<lambda>_. example_request ''a.test'' LOW))"

definition slow_env :: Env where
  "slow_env =
     example_env\<lparr>GetParamsForEffectiveConnectionType :=
       (\<lambda>_. DefaultParamsForNetworkQuality\<lparr>max_queuing_time := Some 10\<rparr>)\<rparr>"

definition long_queued :: World where
  "long_queued = OnEffectiveConnectionTypeChanged slow_env ECT_3G (eight_submitted LOW)"

definition late_env :: Env where
  "late_env = slow_env\<lparr>NowTicks := 100\<rparr>"

section \<open>Properties\<close>

lemmas attr_defs =
  kAttributeNone_def kAttributeInFlight_def kAttributeDelayable_def kAttributeLayoutBlocking_def

lemmas example_defs =
  example_world_def example_env_def example_request_def blank_handle_def NewClient_def
  Let_def UpdateParamsForNetworkQuality_def DefaultParamsForNetworkQuality_def

subsection \<open>The weighted count of non-delayable requests\<close>

text \<open>\<open>to_double\<close> gives a number with a significand of at most 53 bits at the binary
  exponent of its argument, no further from the argument than half a unit in the last
  place.\<close>

lemma pow2_powi: "pow2 e = 2 powi e"
  by (simp add: pow2_def power_int_def inverse_eq_divide power_one_over)

lemma of_int_bitlen_bounds:
  assumes "0 < p"
  shows "(2::rat) powi (bitlen p - 1) \<le> of_int p" "(of_int p :: rat) < 2 powi bitlen p"
proof -
  have b: "1 \<le> bitlen p" using assms by (simp add: bitlen_alt_def)
  from bitlen_bounds [OF assms]
  have "2 ^ nat (bitlen p - 1) \<le> p" "p < 2 ^ nat (bitlen p)" by simp_all
  then have "(of_int (2 ^ nat (bitlen p - 1)) :: rat) \<le> of_int p"
    "(of_int p :: rat) < of_int (2 ^ nat (bitlen p))"
    by (simp_all only: of_int_le_iff of_int_less_iff)
  then show "(2::rat) powi (bitlen p - 1) \<le> of_int p" "(of_int p :: rat) < 2 powi bitlen p"
    using b by (simp_all add: power_int_def)
qed

lemma binary_exponent_bounds:
  assumes "0 < x"
  shows "pow2 (binary_exponent x) \<le> x \<and> x < pow2 (binary_exponent x + 1)"
proof -
  obtain p q where pq: "quotient_of x = (p, q)" by force
  have q: "0 < q" using quotient_of_denom_pos [OF pq] .
  have x: "x = of_int p / of_int q" using quotient_of_div [OF pq] .
  have p: "0 < p" using assms x q by (simp add: zero_less_divide_iff)
  let ?e = "bitlen p - bitlen q"
  note P = of_int_bitlen_bounds [OF p] and Q = of_int_bitlen_bounds [OF q]
  have qpos: "(0::rat) < of_int q" using q by simp
  have lo: "(2::rat) powi (?e - 1) \<le> x"
  proof -
    have "(2::rat) powi (?e - 1) = 2 powi (bitlen p - 1) / 2 powi bitlen q"
      by (simp add: power_int_diff)
    also have "\<dots> \<le> of_int p / 2 powi bitlen q"
      using P(1) by (simp add: divide_right_mono)
    also have "\<dots> \<le> of_int p / of_int q"
      using Q(2) qpos p by (intro divide_left_mono) simp_all
    finally show ?thesis by (simp add: x)
  qed
  have hi: "x < (2::rat) powi (?e + 1)"
  proof -
    have "x = of_int p / of_int q" by (rule x)
    also have "\<dots> < 2 powi bitlen p / of_int q"
      using P(2) qpos by (simp add: divide_strict_right_mono)
    also have "\<dots> \<le> 2 powi bitlen p / 2 powi (bitlen q - 1)"
      using Q(1) qpos by (intro divide_left_mono) simp_all
    also have "\<dots> = 2 powi (?e + 1)"
      by (simp add: power_int_diff power_int_add)
    finally show ?thesis .
  qed
  show ?thesis
  proof (cases "pow2 ?e \<le> x")
    case True
    then show ?thesis using hi by (simp add: binary_exponent_def pq pow2_powi)
  next
    case False
    then show ?thesis using lo by (simp add: binary_exponent_def pq pow2_powi)
  qed
qed

lemma round_half_even_error: "\<bar>of_int (round_half_even x) - x\<bar> \<le> 1 / 2"
proof -
  have "of_int \<lfloor>x\<rfloor> \<le> x" "x < of_int \<lfloor>x\<rfloor> + 1" by linarith+
  then show ?thesis
    by (auto simp: round_half_even_def Let_def abs_le_iff)
qed

lemma pow2_pos: "0 < pow2 e"
  by (simp add: pow2_def)

lemma to_double_error:
  "\<bar>to_double x - x\<bar> \<le> pow2 (binary_exponent \<bar>x\<bar> - 52) / 2"
proof (cases "x = 0")
  case True
  then show ?thesis by (simp add: to_double_def less_imp_le pow2_pos)
next
  case False
  let ?u = "pow2 (binary_exponent \<bar>x\<bar> - 52)"
  let ?n = "round_half_even (\<bar>x\<bar> / ?u)"
  have u: "0 < ?u" by (rule pow2_pos)
  have "x = sgn x * \<bar>x\<bar>" by (simp add: mult_sgn_abs)
  then have "to_double x - x = sgn x * (of_int ?n * ?u) - sgn x * \<bar>x\<bar>"
    using False by (simp add: to_double_def Let_def mult.assoc)
  then have "\<bar>to_double x - x\<bar> = \<bar>sgn x * (of_int ?n * ?u - \<bar>x\<bar>)\<bar>"
    by (simp only: right_diff_distrib)
  also have "\<dots> = \<bar>of_int ?n * ?u - \<bar>x\<bar>\<bar>"
    using False by (simp add: abs_mult abs_sgn_eq)
  also have "\<dots> = \<bar>of_int ?n - \<bar>x\<bar> / ?u\<bar> * ?u"
  proof -
    have "?u \<noteq> 0" using u by simp
    then have "of_int ?n * ?u - \<bar>x\<bar> = (of_int ?n - \<bar>x\<bar> / ?u) * ?u"
      by (simp add: left_diff_distrib)
    then show ?thesis using u by (simp add: abs_mult)
  qed
  also have "\<dots> \<le> 1 / 2 * ?u"
    using round_half_even_error [of "\<bar>x\<bar> / ?u"] u by (intro mult_right_mono) simp_all
  finally show ?thesis by simp
qed

lemma round_half_even_between:
  assumes "of_int a \<le> x" and "x \<le> of_int b"
  shows "a \<le> round_half_even x \<and> round_half_even x \<le> b"
proof -
  have f: "a \<le> \<lfloor>x\<rfloor>" using assms(1) by (simp add: le_floor_iff)
  have c: "\<lceil>x\<rceil> \<le> b" using assms(2) by (simp add: ceiling_le_iff)
  have le: "\<lfloor>x\<rfloor> \<le> \<lceil>x\<rceil>" by (rule floor_le_ceiling)
  have "round_half_even x = \<lfloor>x\<rfloor>
        \<or> (round_half_even x = \<lfloor>x\<rfloor> + 1 \<and> of_int \<lfloor>x\<rfloor> < x)"
  proof (cases "x - of_int \<lfloor>x\<rfloor> < 1 / 2")
    case True
    then show ?thesis by (simp add: round_half_even_def Let_def)
  next
    case False
    then have "of_int \<lfloor>x\<rfloor> < x" by linarith
    with False show ?thesis by (simp add: round_half_even_def Let_def)
  qed
  then consider "round_half_even x = \<lfloor>x\<rfloor>"
    | "round_half_even x = \<lfloor>x\<rfloor> + 1" and "of_int \<lfloor>x\<rfloor> < x"
    by blast
  then show ?thesis
  proof cases
    case 1
    then show ?thesis using f c le by linarith
  next
    case 2
    have "\<lfloor>x\<rfloor> + 1 = \<lceil>x\<rceil>"
      using 2(2) by (simp add: ceiling_altdef)
    then show ?thesis using 2(1) f c by linarith
  qed
qed

lemma to_double_significand:
  assumes "x \<noteq> 0"
  shows "2 ^ 52 \<le> round_half_even (\<bar>x\<bar> / pow2 (binary_exponent \<bar>x\<bar> - 52))
       \<and> round_half_even (\<bar>x\<bar> / pow2 (binary_exponent \<bar>x\<bar> - 52)) \<le> 2 ^ 53"
proof -
  let ?e = "binary_exponent \<bar>x\<bar>"
  have pos: "0 < \<bar>x\<bar>" using assms by simp
  note b = binary_exponent_bounds [OF pos]
  have u: "(0::rat) < 2 powi (?e - 52)" by simp
  have "(2::rat) ^ 52 = 2 powi ?e / 2 powi (?e - 52)"
    by (simp add: power_int_diff)
  also have "\<dots> \<le> \<bar>x\<bar> / 2 powi (?e - 52)"
    using b u by (intro divide_right_mono) (simp_all add: pow2_powi)
  finally have lo: "of_int (2 ^ 52) \<le> \<bar>x\<bar> / pow2 (?e - 52)"
    by (simp add: pow2_powi)
  have "\<bar>x\<bar> / 2 powi (?e - 52) \<le> 2 powi (?e + 1) / 2 powi (?e - 52)"
    using b u by (intro divide_right_mono) (simp_all add: pow2_powi)
  also have "\<dots> = (2::rat) ^ 53"
    by (simp add: power_int_diff power_int_add)
  finally have hi: "\<bar>x\<bar> / pow2 (?e - 52) \<le> of_int (2 ^ 53)"
    by (simp add: pow2_powi)
  show ?thesis
    using round_half_even_between [OF lo hi] by simp
qed

text \<open>With the weight 0.6, which as a double lies below three fifths, and five
  non-delayable requests in flight, the product of doubles rounds to 3 and the weighted
  count is 3, although the exact product truncates to 2.\<close>

lemma weighted_count_rounds:
  "truncate_toward_zero (double_times (to_double (3 / 5)) (double_of_size_t 5)) = 3
   \<and> truncate_toward_zero (to_double (3 / 5) * 5) = 2"
  by code_simp

subsection \<open>The Delayable attribute\<close>

text \<open>
  C1 (as amended). For a request whose handle is not already marked layout-blocking,
  the attributes that \<^verbatim>\<open>DetermineRequestAttributes\<close> computes include Delayable if and
  only if the priority of the request is below \<^verbatim>\<open>kDelayablePriorityThreshold\<close> and
  either the multiplexed-connection delay mode is on or the host is not known to support
  request priorities.
\<close>

theorem C1_delayable_iff:
  "\<not> RequestAttributesAreSet (attributes (handles w r)) kAttributeLayoutBlocking \<Longrightarrow>
   RequestAttributesAreSet (DetermineRequestAttributes env w r) kAttributeDelayable
     \<longleftrightarrow> (priority_ordinal (request_priority (url_request w r))
            < priority_ordinal kDelayablePriorityThreshold
          \<and> (delay_requests_on_multiplexed_connections (params_for_network_quality (client w))
             \<or> \<not> SupportsRequestPriority env (SchemeHostPort (request_url (url_request w r)))
                   (network_isolation_key (url_request w r))))"
  by (auto simp: DetermineRequestAttributes_def RequestAttributesAreSet_def attr_defs Let_def)

text \<open>A LOW request to a host without request priorities is delayable.\<close>

theorem C1_delayable_iff_witness:
  "\<not> RequestAttributesAreSet
        (attributes (handles (example_world (\<lambda>_. example_request ''a.test'' LOW)) 1))
        kAttributeLayoutBlocking
   \<and> RequestAttributesAreSet
        (DetermineRequestAttributes example_env
           (example_world (\<lambda>_. example_request ''a.test'' LOW)) 1)
        kAttributeDelayable"
proof -
  have h: "\<not> RequestAttributesAreSet
        (attributes (handles (example_world (\<lambda>_. example_request ''a.test'' LOW)) 1))
        kAttributeLayoutBlocking"
    by (simp add: example_defs RequestAttributesAreSet_def attr_defs)
  show ?thesis
    using h C1_delayable_iff [OF h, of example_env]
    by (simp add: example_defs url_request_def kDelayablePriorityThreshold_def)
qed

text \<open>The claim as stated fails with the delay mode off and a host that supports request
  priorities: a LOW request is then not delayable, although its priority is below the
  threshold and the delay mode is off.\<close>

theorem C1_stated_counterexample:
  "\<not> RequestAttributesAreSet
        (attributes (handles (example_world (\<lambda>_. example_request ''a.test'' LOW)) 1))
        kAttributeLayoutBlocking
   \<and> \<not> (RequestAttributesAreSet
          (DetermineRequestAttributes (example_env\<lparr>SupportsRequestPriority := (\<lambda>_ _. True)\<rparr>)
             (example_world (\<lambda>_. example_request ''a.test'' LOW)) 1) kAttributeDelayable
        \<longleftrightarrow> (priority_ordinal
                 (request_priority
                    (url_request (example_world (\<lambda>_. example_request ''a.test'' LOW)) 1))
               < priority_ordinal kDelayablePriorityThreshold
             \<and> (\<not> delay_requests_on_multiplexed_connections
                     (params_for_network_quality
                        (client (example_world (\<lambda>_. example_request ''a.test'' LOW))))
                \<or> \<not> SupportsRequestPriority
                      (example_env\<lparr>SupportsRequestPriority := (\<lambda>_ _. True)\<rparr>)
                      (SchemeHostPort (request_url
                         (url_request (example_world (\<lambda>_. example_request ''a.test'' LOW)) 1)))
                      (network_isolation_key
                         (url_request (example_world (\<lambda>_. example_request ''a.test'' LOW)) 1)))))"
  by (simp add: DetermineRequestAttributes_def RequestAttributesAreSet_def attr_defs Let_def
        example_defs url_request_def kDelayablePriorityThreshold_def)

subsection \<open>Re-prioritizing a request that ignores limits\<close>

text \<open>
  C7 (as amended). For a request carrying the \<^verbatim>\<open>LOAD_IGNORE_LIMITS\<close> load flag, the
  scheduler's re-prioritization, in both overloads, returns at once: it bypasses the
  client and changes nothing, the priority of the request included.
\<close>

theorem C7_ignore_limits_unchanged:
  "load_flags (url_requests s req) AND LOAD_IGNORE_LIMITS env \<noteq> 0 \<Longrightarrow>
     ReprioritizeRequest env req new_priority new_intra_priority_value s = s
   \<and> ReprioritizeRequest_same_intra_priority env req new_priority s = s"
  by (simp add: ReprioritizeRequest_def ReprioritizeRequest_same_intra_priority_def)

theorem C7_ignore_limits_unchanged_witness:
  "load_flags (url_requests (example_scheduler (\<lambda>_. ignore_limits_request)) 1)
     AND LOAD_IGNORE_LIMITS example_env \<noteq> 0
   \<and> request_priority (url_requests
        (ReprioritizeRequest example_env 1 LOW 0
           (example_scheduler (\<lambda>_. ignore_limits_request))) 1) = HIGHEST"
proof -
  have h: "load_flags (url_requests (example_scheduler (\<lambda>_. ignore_limits_request)) 1)
     AND LOAD_IGNORE_LIMITS example_env \<noteq> 0"
    by (simp add: example_defs example_scheduler_def ignore_limits_request_def)
  show ?thesis
    using h C7_ignore_limits_unchanged [OF h, of LOW 0]
    by (simp add: example_defs example_scheduler_def ignore_limits_request_def)
qed

text \<open>The claim as stated fails: the new priority LOW is not applied to a HIGHEST request
  that carries the flag.\<close>

theorem C7_stated_counterexample:
  "load_flags (url_requests (example_scheduler (\<lambda>_. ignore_limits_request)) 1)
     AND LOAD_IGNORE_LIMITS example_env \<noteq> 0
   \<and> request_priority (url_requests
        (ReprioritizeRequest example_env 1 LOW 0
           (example_scheduler (\<lambda>_. ignore_limits_request))) 1) \<noteq> LOW"
  by (simp add: ReprioritizeRequest_def example_defs example_scheduler_def
        ignore_limits_request_def)

subsection \<open>A request without a registered client\<close>

text \<open>
  C8 (as amended). When no client is registered under the client id of a submitted
  request, the submission records the handle among the unowned requests and calls
  \<^verbatim>\<open>Start(START_SYNC)\<close> on it at once: no client is created or changed, no task is
  posted, the handle is not deferred, and it is ready exactly when the request had not
  been cancelled before. Nothing of the environment (the enabled flag, the parameters,
  the clock) enters the outcome.
\<close>

theorem C8_missing_client_starts_unowned:
  "client_map s (MakeClientId child_id route_id) = None \<Longrightarrow>
   (let s' = ScheduleRequest env child_id route_id async req r s in
      r \<in> set (unowned_requests s')
    \<and> set (unowned_requests s') = insert r (set (unowned_requests s))
    \<and> client_map s' = client_map s
    \<and> posted_tasks s' = posted_tasks s
    \<and> resume_callbacks_run s' = resume_callbacks_run s
    \<and> ready (handles s' r) = status_is_success (url_requests s req)
    \<and> \<not> deferred (handles s' r)
    \<and> attributes (handles s' r) = kAttributeNone
    \<and> s' = ScheduleRequest env' child_id route_id async req r s)"
  by (simp add: ScheduleRequest_def Let_def NewScheduledResourceRequestImpl_def Start_def
        url_request_def)

theorem C8_missing_client_starts_unowned_witness:
  "client_map (example_scheduler (\<lambda>_. example_request ''a.test'' LOW)) (MakeClientId 3 7) = None
   \<and> unowned_requests
       (ScheduleRequest example_env 3 7 True 1 1
          (example_scheduler (\<lambda>_. example_request ''a.test'' LOW))) = [1]
   \<and> ready (handles
       (ScheduleRequest example_env 3 7 True 1 1
          (example_scheduler (\<lambda>_. example_request ''a.test'' LOW))) 1)"
proof -
  have h: "client_map (example_scheduler (\<lambda>_. example_request ''a.test'' LOW))
             (MakeClientId 3 7) = None"
    by (simp add: example_defs example_scheduler_def)
  have u: "unowned_requests
       (ScheduleRequest example_env 3 7 True 1 1
          (example_scheduler (\<lambda>_. example_request ''a.test'' LOW))) = [1]"
    by (simp add: ScheduleRequest_def Let_def NewScheduledResourceRequestImpl_def Start_def
          url_request_def example_defs example_scheduler_def)
  show ?thesis
    using h u C8_missing_client_starts_unowned [OF h, of example_env True 1 1 example_env]
    by (simp add: Let_def example_defs example_scheduler_def)
qed

text \<open>The claim as stated fails for a request that was cancelled before it is submitted:
  it is recorded as unowned, but \<^verbatim>\<open>Start\<close> returns at once, so the handle is not made
  ready and nothing is resumed.\<close>

theorem C8_stated_counterexample:
  "client_map (example_scheduler (\<lambda>_. cancelled_request)) (MakeClientId 3 7) = None
   \<and> unowned_requests
       (ScheduleRequest example_env 3 7 True 1 1
          (example_scheduler (\<lambda>_. cancelled_request))) = [1]
   \<and> \<not> ready (handles
       (ScheduleRequest example_env 3 7 True 1 1
          (example_scheduler (\<lambda>_. cancelled_request))) 1)
   \<and> resume_callbacks_run
       (ScheduleRequest example_env 3 7 True 1 1
          (example_scheduler (\<lambda>_. cancelled_request))) = []
   \<and> posted_tasks
       (ScheduleRequest example_env 3 7 True 1 1
          (example_scheduler (\<lambda>_. cancelled_request))) = []"
  by (simp add: ScheduleRequest_def Let_def NewScheduledResourceRequestImpl_def Start_def
        url_request_def example_scheduler_def cancelled_request_def example_request_def)

subsection \<open>The order of the two caps\<close>

text \<open>
  C2 (as amended). For a renderer client the global cap on delayable requests is tested
  before the cap per host, and the first rule that matches decides. For a delayable
  request that none of the earlier rules admits, the outcome is
  not-started-and-stop-searching when the global cap holds, whether or not the cap per
  host holds too. The outcome is not-started-and-keep-searching exactly when the request
  is such a request, the cap per host holds and the global cap does not.
\<close>

theorem C2_global_cap_first:
  "\<not> is_browser_client (client w) \<Longrightarrow>
     (reaches_delayable_rules env w r \<and> global_delayable_cap_reached w \<longrightarrow>
        ShouldStartRequest env w r = DO_NOT_START_REQUEST_AND_STOP_SEARCHING)
   \<and> (ShouldStartRequest env w r = DO_NOT_START_REQUEST_AND_KEEP_SEARCHING \<longleftrightarrow>
        reaches_delayable_rules env w r \<and> \<not> global_delayable_cap_reached w
        \<and> per_host_cap_reached env w r)"
  by (auto simp: reaches_delayable_rules_def global_delayable_cap_reached_def
        per_host_cap_reached_def ShouldStartRequest_def Let_def)

text \<open>The eleventh request, with ten delayable requests in flight, six of them to its
  host: the global cap holds and the scan stops. The seventh of eight requests to one
  host, with six delayable requests in flight: only the cap per host holds and the scan
  goes on.\<close>

theorem C2_global_cap_first_witness:
  "\<not> is_browser_client (client eleven_submitted)
   \<and> reaches_delayable_rules example_env eleven_submitted 11
   \<and> global_delayable_cap_reached eleven_submitted
   \<and> ShouldStartRequest example_env eleven_submitted 11 = DO_NOT_START_REQUEST_AND_STOP_SEARCHING
   \<and> \<not> is_browser_client (client (eight_submitted LOW))
   \<and> reaches_delayable_rules example_env (eight_submitted LOW) 7
   \<and> \<not> global_delayable_cap_reached (eight_submitted LOW)
   \<and> per_host_cap_reached example_env (eight_submitted LOW) 7
   \<and> ShouldStartRequest example_env (eight_submitted LOW) 7
        = DO_NOT_START_REQUEST_AND_KEEP_SEARCHING"
proof -
  have b: "\<not> is_browser_client (client eleven_submitted)" by code_simp
  have h: "reaches_delayable_rules example_env eleven_submitted 11" by code_simp
  have g: "global_delayable_cap_reached eleven_submitted" by code_simp
  have b': "\<not> is_browser_client (client (eight_submitted LOW))" by code_simp
  have h': "reaches_delayable_rules example_env (eight_submitted LOW) 7" by code_simp
  have g': "\<not> global_delayable_cap_reached (eight_submitted LOW)" by code_simp
  have p': "per_host_cap_reached example_env (eight_submitted LOW) 7" by code_simp
  show ?thesis
    using b h g b' h' g' p'
      C2_global_cap_first [OF b, of example_env 11]
      C2_global_cap_first [OF b', of example_env 7]
    by simp
qed

text \<open>The claim as stated fails in the same state: both caps hold and the outcome is not
  not-started-and-keep-searching.\<close>

theorem C2_stated_counterexample:
  "reaches_delayable_rules example_env eleven_submitted 11
   \<and> per_host_cap_reached example_env eleven_submitted 11
   \<and> global_delayable_cap_reached eleven_submitted
   \<and> ShouldStartRequest example_env eleven_submitted 11
        \<noteq> DO_NOT_START_REQUEST_AND_KEEP_SEARCHING"
  by code_simp

subsection \<open>Eight requests to one host\<close>

lemma eight_THROTTLED_start:
  "in_flight_requests (client (eight_submitted THROTTLED)) = [6, 5, 4, 3, 2, 1]
   \<and> queue (pending_requests (client (eight_submitted THROTTLED))) = [7, 8]"
  by code_simp

lemma eight_THROTTLED_removed:
  "list_all (\<lambda>k.
      in_flight_requests (client (Client_RemoveRequest example_env k (eight_submitted THROTTLED)))
        = 7 # removeAll k [6, 5, 4, 3, 2, 1]
    \<and> queue (pending_requests (client (Client_RemoveRequest example_env k (eight_submitted THROTTLED))))
        = [8]) [1, 2, 3, 4, 5, 6]"
  by code_simp

lemma eight_IDLE_start:
  "in_flight_requests (client (eight_submitted IDLE)) = [6, 5, 4, 3, 2, 1]
   \<and> queue (pending_requests (client (eight_submitted IDLE))) = [7, 8]"
  by code_simp

lemma eight_IDLE_removed:
  "list_all (\<lambda>k.
      in_flight_requests (client (Client_RemoveRequest example_env k (eight_submitted IDLE)))
        = 7 # removeAll k [6, 5, 4, 3, 2, 1]
    \<and> queue (pending_requests (client (Client_RemoveRequest example_env k (eight_submitted IDLE))))
        = [8]) [1, 2, 3, 4, 5, 6]"
  by code_simp

lemma eight_LOWEST_start:
  "in_flight_requests (client (eight_submitted LOWEST)) = [6, 5, 4, 3, 2, 1]
   \<and> queue (pending_requests (client (eight_submitted LOWEST))) = [7, 8]"
  by code_simp

lemma eight_LOWEST_removed:
  "list_all (\<lambda>k.
      in_flight_requests (client (Client_RemoveRequest example_env k (eight_submitted LOWEST)))
        = 7 # removeAll k [6, 5, 4, 3, 2, 1]
    \<and> queue (pending_requests (client (Client_RemoveRequest example_env k (eight_submitted LOWEST))))
        = [8]) [1, 2, 3, 4, 5, 6]"
  by code_simp

lemma eight_LOW_start:
  "in_flight_requests (client (eight_submitted LOW)) = [6, 5, 4, 3, 2, 1]
   \<and> queue (pending_requests (client (eight_submitted LOW))) = [7, 8]"
  by code_simp

lemma eight_LOW_removed:
  "list_all (\<lambda>k.
      in_flight_requests (client (Client_RemoveRequest example_env k (eight_submitted LOW)))
        = 7 # removeAll k [6, 5, 4, 3, 2, 1]
    \<and> queue (pending_requests (client (Client_RemoveRequest example_env k (eight_submitted LOW))))
        = [8]) [1, 2, 3, 4, 5, 6]"
  by code_simp

text \<open>
  C3 (as amended). For a renderer client with the default parameters and nothing in
  flight, submitting eight requests of one priority below MEDIUM to one host without
  request priorities starts exactly the first six at once and leaves requests 7 and 8
  pending, in this order; removing any one of the six in-flight requests then moves
  exactly request 7, the earlier submitted of the two, into flight and leaves request 8
  pending.
\<close>

theorem C3_eight_below_medium:
  assumes "priority_ordinal p < priority_ordinal MEDIUM" and "k \<in> {1, 2, 3, 4, 5, 6}"
  shows "in_flight_requests (client (eight_submitted p)) = [6, 5, 4, 3, 2, 1]
   \<and> queue (pending_requests (client (eight_submitted p))) = [7, 8]
   \<and> in_flight_requests (client (Client_RemoveRequest example_env k (eight_submitted p)))
       = 7 # removeAll k [6, 5, 4, 3, 2, 1]
   \<and> queue (pending_requests (client (Client_RemoveRequest example_env k (eight_submitted p)))) = [8]"
proof -
  have k: "k \<in> set [1, 2, 3, 4, 5, 6]"
    using assms(2) by simp
  show ?thesis
  proof (cases p)
    case THROTTLED
    show ?thesis
      using eight_THROTTLED_start eight_THROTTLED_removed [unfolded list_all_iff, THEN bspec, OF k]
      unfolding THROTTLED by blast
  next
    case IDLE
    show ?thesis
      using eight_IDLE_start eight_IDLE_removed [unfolded list_all_iff, THEN bspec, OF k]
      unfolding IDLE by blast
  next
    case LOWEST
    show ?thesis
      using eight_LOWEST_start eight_LOWEST_removed [unfolded list_all_iff, THEN bspec, OF k]
      unfolding LOWEST by blast
  next
    case LOW
    show ?thesis
      using eight_LOW_start eight_LOW_removed [unfolded list_all_iff, THEN bspec, OF k]
      unfolding LOW by blast
  next
    case MEDIUM
    with assms(1) show ?thesis by simp
  next
    case HIGHEST
    with assms(1) show ?thesis by simp
  qed
qed

theorem C3_eight_below_medium_witness:
  "priority_ordinal LOW < priority_ordinal MEDIUM \<and> (1::nat) \<in> {1, 2, 3, 4, 5, 6}
   \<and> in_flight_requests (client (eight_submitted LOW)) = [6, 5, 4, 3, 2, 1]
   \<and> queue (pending_requests (client (eight_submitted LOW))) = [7, 8]
   \<and> in_flight_requests (client (Client_RemoveRequest example_env 1 (eight_submitted LOW)))
       = [7, 6, 5, 4, 3, 2]
   \<and> queue (pending_requests (client (Client_RemoveRequest example_env 1 (eight_submitted LOW)))) = [8]"
proof -
  have h1: "priority_ordinal LOW < priority_ordinal MEDIUM" by simp
  have h2: "(1::nat) \<in> {1, 2, 3, 4, 5, 6}" by simp
  show ?thesis using h1 h2 C3_eight_below_medium [OF h1 h2] by simp
qed

text \<open>The claim as stated fails: MEDIUM is not below the threshold, so MEDIUM requests
  are not delayable and all eight start at once.\<close>

theorem C3_stated_counterexample:
  "in_flight_requests (client (eight_submitted MEDIUM)) = [8, 7, 6, 5, 4, 3, 2, 1]
   \<and> queue (pending_requests (client (eight_submitted MEDIUM))) = []"
  by code_simp

subsection \<open>Coalescing of the scheduled pass\<close>

lemma counter_Start [simp]:
  "num_skipped_scans_due_to_scheduled_start (client (Start start_mode r w))
     = num_skipped_scans_due_to_scheduled_start (client w)"
  by (simp add: Start_def)

lemma counter_SetRequestAttributes [simp]:
  "num_skipped_scans_due_to_scheduled_start (client (SetRequestAttributes r a w))
     = num_skipped_scans_due_to_scheduled_start (client w)"
  by (simp add: SetRequestAttributes_def set_attributes_def Let_def)

lemma counter_StartRequest [simp]:
  "num_skipped_scans_due_to_scheduled_start (client (StartRequest env r start_mode trigger w))
     = num_skipped_scans_due_to_scheduled_start (client w)"
  by (simp add: StartRequest_def InsertInFlightRequest_def Let_def)

lemma counter_Erase [simp]:
  "num_skipped_scans_due_to_scheduled_start (client (Erase r w))
     = num_skipped_scans_due_to_scheduled_start (client w)"
  by (simp add: Erase_def)

lemma counter_loop:
  "num_skipped_scans_due_to_scheduled_start
     (client (LoadAnyStartablePendingRequests_loop env trigger w i))
   = num_skipped_scans_due_to_scheduled_start (client w)"
proof (induction env trigger w i rule: LoadAnyStartablePendingRequests_loop.induct)
  case (1 env trigger w i)
  show ?case
    by (subst LoadAnyStartablePendingRequests_loop.simps)
       (auto simp: 1 split: ShouldStartReqResult.splits)
qed

lemma counter_LoadAny:
  "num_skipped_scans_due_to_scheduled_start
     (client (LoadAnyStartablePendingRequests env trigger w)) = 0"
  by (simp add: LoadAnyStartablePendingRequests_def counter_loop)

lemma fold_Schedule_later:
  "num_skipped_scans_due_to_scheduled_start (client w) = of_nat n \<Longrightarrow> 0 < n \<Longrightarrow>
   n + length ts < 2 ^ 32 \<Longrightarrow>
     posted_tasks (fold ScheduleLoadAnyStartablePendingRequests ts w) = posted_tasks w
   \<and> num_skipped_scans_due_to_scheduled_start
        (client (fold ScheduleLoadAnyStartablePendingRequests ts w)) = of_nat (n + length ts)"
proof (induction ts arbitrary: w n)
  case Nil
  then show ?case by simp
next
  case (Cons t ts)
  have nz: "(of_nat n :: 32 word) \<noteq> 0"
    using Cons.prems(2,3) by (intro of_nat_neq_0) simp_all
  have step: "num_skipped_scans_due_to_scheduled_start
               (client (ScheduleLoadAnyStartablePendingRequests t w)) = of_nat (Suc n)"
    and tasks: "posted_tasks (ScheduleLoadAnyStartablePendingRequests t w) = posted_tasks w"
    using Cons.prems(1) nz by (simp_all add: ScheduleLoadAnyStartablePendingRequests_def Let_def)
  from Cons.IH [OF step] Cons.prems(3) tasks show ?case by simp
qed

text \<open>
  C9 (as amended). From a state whose count of skipped scans is zero, a sequence of
  one or more calls of \<^verbatim>\<open>ScheduleLoadAnyStartablePendingRequests\<close> (fewer than \<open>2 ^ 31\<close>,
  so that the counter does not overflow) with no pass run in between posts exactly one
  task, bound to the client and carrying the trigger of the first call; every later call
  only increments the counter; and running the pass resets the counter to zero.
\<close>

theorem C9_coalesced_pass:
  assumes "num_skipped_scans_due_to_scheduled_start (client w) = 0"
    and "ts \<noteq> []" and "length ts < 2 ^ 31"
  shows "posted_tasks (fold ScheduleLoadAnyStartablePendingRequests ts w)
           = posted_tasks w
               @ [LoadAnyStartablePendingRequestsTask (this_client (client w)) (hd ts)]
       \<and> num_skipped_scans_due_to_scheduled_start
           (client (fold ScheduleLoadAnyStartablePendingRequests ts w)) = of_nat (length ts)
       \<and> num_skipped_scans_due_to_scheduled_start
           (client (LoadAnyStartablePendingRequests env trigger
              (fold ScheduleLoadAnyStartablePendingRequests ts w))) = 0"
proof -
  obtain t rest where ts: "ts = t # rest"
    using assms(2) by (cases ts) auto
  let ?w1 = "ScheduleLoadAnyStartablePendingRequests t w"
  have c1: "num_skipped_scans_due_to_scheduled_start (client ?w1) = of_nat 1"
    and p1: "posted_tasks ?w1
               = posted_tasks w @ [LoadAnyStartablePendingRequestsTask (this_client (client w)) t]"
    using assms(1) by (simp_all add: ScheduleLoadAnyStartablePendingRequests_def Let_def)
  have "1 + length rest < (2::nat) ^ 32"
    using assms(3) ts by simp
  from fold_Schedule_later [OF c1 _ this] p1 ts show ?thesis
    by (simp add: counter_LoadAny)
qed

theorem C9_coalesced_pass_witness:
  "num_skipped_scans_due_to_scheduled_start
     (client (example_world (\<lambda>_. example_request ''a.test'' LOW))) = 0
   \<and> posted_tasks
       (fold ScheduleLoadAnyStartablePendingRequests
          [REQUEST_REPRIORITIZED, REQUEST_REPRIORITIZED, REQUEST_REPRIORITIZED]
          (example_world (\<lambda>_. example_request ''a.test'' LOW)))
       = [LoadAnyStartablePendingRequestsTask 0 REQUEST_REPRIORITIZED]
   \<and> num_skipped_scans_due_to_scheduled_start
       (client (fold ScheduleLoadAnyStartablePendingRequests
          [REQUEST_REPRIORITIZED, REQUEST_REPRIORITIZED, REQUEST_REPRIORITIZED]
          (example_world (\<lambda>_. example_request ''a.test'' LOW)))) = 3"
proof -
  have h: "num_skipped_scans_due_to_scheduled_start
     (client (example_world (\<lambda>_. example_request ''a.test'' LOW))) = 0"
    by (simp add: example_defs)
  show ?thesis
    using h C9_coalesced_pass [OF h,
        of "[REQUEST_REPRIORITIZED, REQUEST_REPRIORITIZED, REQUEST_REPRIORITIZED]" example_env NONE]
    by (simp add: example_defs)
qed

text \<open>The last part of the claim as stated fails: a pass that runs directly, here from the
  removal of an in-flight request, resets the counter while the task posted before is
  still queued, and the next call posts a second task.\<close>

theorem C9_stated_counterexample:
  "posted_tasks two_passes_posted
     = [LoadAnyStartablePendingRequestsTask 0 REQUEST_REPRIORITIZED,
        LoadAnyStartablePendingRequestsTask 0 REQUEST_REPRIORITIZED]"
  by code_simp


subsection \<open>The cached counters\<close>

lemma fields_Start [simp]:
  "in_flight_requests (client (Start start_mode r w)) = in_flight_requests (client w)"
  "attributes (handles (Start start_mode r w) x) = attributes (handles w x)"
  "in_flight_delayable_count (client (Start start_mode r w)) = in_flight_delayable_count (client w)"
  "total_layout_blocking_count (client (Start start_mode r w)) = total_layout_blocking_count (client w)"
  by (simp_all add: Start_def)

lemma fields_Erase [simp]:
  "in_flight_requests (client (Erase r w)) = in_flight_requests (client w)"
  "handles (Erase r w) = handles w"
  "url_requests (Erase r w) = url_requests w"
  "in_flight_delayable_count (client (Erase r w)) = in_flight_delayable_count (client w)"
  "total_layout_blocking_count (client (Erase r w)) = total_layout_blocking_count (client w)"
  by (simp_all add: Erase_def)

lemma set_multiset_insert [simp]: "set (multiset_insert hs r xs) = insert r (set xs)"
  by (induction xs) auto

lemma distinct_multiset_insert [simp]:
  "distinct (multiset_insert hs r xs) \<longleftrightarrow> r \<notin> set xs \<and> distinct xs"
  by (induction xs) auto

lemma fields_Insert [simp]:
  "in_flight_requests (client (Insert r w)) = in_flight_requests (client w)"
  "attributes (handles (Insert r w) x) = attributes (handles w x)"
  "in_flight_delayable_count (client (Insert r w)) = in_flight_delayable_count (client w)"
  "total_layout_blocking_count (client (Insert r w)) = total_layout_blocking_count (client w)"
  "set (queue (pending_requests (client (Insert r w)))) = insert r (set (queue (pending_requests (client w))))"
  "distinct (queue (pending_requests (client (Insert r w))))
     \<longleftrightarrow> r \<notin> set (queue (pending_requests (client w))) \<and> distinct (queue (pending_requests (client w)))"
  by (simp_all add: Insert_def MakeFifoOrderingId_def set_fifo_ordering_def Let_def)

lemma fields_SetRequestAttributes [simp]:
  "in_flight_requests (client (SetRequestAttributes r a w)) = in_flight_requests (client w)"
  "attributes (handles (SetRequestAttributes r a w) x)
     = (if x = r then a else attributes (handles w x))"
  "in_flight_delayable_count (client (SetRequestAttributes r a w))
     = in_flight_delayable_count (client w)
         - (if RequestAttributesAreSet (attributes (handles w r)) IFD then 1 else 0)
         + (if RequestAttributesAreSet a IFD then 1 else 0)"
  "total_layout_blocking_count (client (SetRequestAttributes r a w))
     = total_layout_blocking_count (client w)
         - (if RequestAttributesAreSet (attributes (handles w r)) kAttributeLayoutBlocking then 1 else 0)
         + (if RequestAttributesAreSet a kAttributeLayoutBlocking then 1 else 0)"
  by (simp_all add: SetRequestAttributes_def set_attributes_def Let_def IFD_def)

lemma Determine_bits:
  "RequestAttributesAreSet (DetermineRequestAttributes env w r) kAttributeLayoutBlocking
     \<longleftrightarrow> RequestAttributesAreSet (attributes (handles w r)) kAttributeLayoutBlocking"
  "RequestAttributesAreSet (DetermineRequestAttributes env w r) IFD \<Longrightarrow> r \<in> set (in_flight_requests (client w))"
  by (auto simp: DetermineRequestAttributes_def RequestAttributesAreSet_def attr_defs Let_def IFD_def
      split: if_splits)


lemma well_tracked_cong:
  assumes "in_flight_requests (client w') = in_flight_requests (client w)"
    and "queue (pending_requests (client w')) = queue (pending_requests (client w))"
    and "\<And>x. attributes (handles w' x) = attributes (handles w x)"
    and "in_flight_delayable_count (client w') = in_flight_delayable_count (client w)"
    and "total_layout_blocking_count (client w') = total_layout_blocking_count (client w)"
  shows "well_tracked w' = well_tracked w"
  by (simp add: well_tracked_def tracked_def assms)

lemma count_change:
  "distinct xs \<Longrightarrow> r \<in> set xs \<Longrightarrow> (\<And>x. x \<noteq> r \<Longrightarrow> P' x = P x) \<Longrightarrow>
   (of_nat (length (filter P' xs)) :: 64 word)
     = of_nat (length (filter P xs)) - (if P r then 1 else 0) + (if P' r then 1 else 0)"
proof (induction xs)
  case Nil
  then show ?case by simp
next
  case (Cons y ys)
  show ?case
  proof (cases "y = r")
    case True
    with Cons.prems have "r \<notin> set ys" by simp
    then have "filter P' ys = filter P ys"
      using Cons.prems(3) by (intro filter_cong) metis+
    then show ?thesis using True by simp
  next
    case False
    with Cons show ?thesis by simp
  qed
qed

lemma count_removeAll:
  "distinct xs \<Longrightarrow> r \<in> set xs \<Longrightarrow>
   (of_nat (length (filter P (removeAll r xs))) :: 64 word)
     = of_nat (length (filter P xs)) - (if P r then 1 else 0)"
proof (induction xs)
  case Nil
  then show ?case by simp
next
  case (Cons y ys)
  show ?case
  proof (cases "y = r")
    case True
    with Cons.prems have "r \<notin> set ys" by simp
    then show ?thesis using True by simp
  next
    case False
    with Cons show ?thesis by simp
  qed
qed

lemma well_tracked_Start [simp]: "well_tracked (Start start_mode r w) = well_tracked w"
  by (rule well_tracked_cong) simp_all

lemma well_tracked_Erase: "well_tracked w \<Longrightarrow> well_tracked (Erase r w)"
  by (auto simp: well_tracked_def tracked_def dest: notin_set_remove1)

lemma well_tracked_Insert:
  "well_tracked w \<Longrightarrow> r \<notin> tracked w \<Longrightarrow>
   \<not> RequestAttributesAreSet (attributes (handles w r)) kAttributeLayoutBlocking \<Longrightarrow>
   \<not> RequestAttributesAreSet (attributes (handles w r)) IFD \<Longrightarrow>
   well_tracked (Insert r w)"
  by (auto simp: well_tracked_def tracked_def)

lemma well_tracked_SetRequestAttributes_not_in_flight:
  assumes "well_tracked w" and "r \<notin> set (in_flight_requests (client w))"
    and "\<not> RequestAttributesAreSet (attributes (handles w r)) IFD"
    and "\<not> RequestAttributesAreSet (attributes (handles w r)) kAttributeLayoutBlocking"
    and "\<not> RequestAttributesAreSet a IFD"
    and "\<not> RequestAttributesAreSet a kAttributeLayoutBlocking"
  shows "well_tracked (SetRequestAttributes r a w)"
proof -
  have "filter (\<lambda>x. RequestAttributesAreSet (attributes (handles (SetRequestAttributes r a w) x)) IFD)
          (in_flight_requests (client w))
        = filter (\<lambda>x. RequestAttributesAreSet (attributes (handles w x)) IFD)
            (in_flight_requests (client w))"
    using assms(2) by (intro filter_cong) auto
  with assms show ?thesis
    by (simp add: well_tracked_def tracked_def)
qed

lemma well_tracked_SetRequestAttributes_in_flight:
  assumes "well_tracked w" and "r \<in> set (in_flight_requests (client w))"
    and "\<not> RequestAttributesAreSet a kAttributeLayoutBlocking"
  shows "well_tracked (SetRequestAttributes r a w)"
proof -
  have d: "distinct (in_flight_requests (client w))"
    using assms(1) by (simp add: well_tracked_def)
  have "(of_nat (length (filter
            (\<lambda>x. RequestAttributesAreSet (attributes (handles (SetRequestAttributes r a w) x)) IFD)
            (in_flight_requests (client w)))) :: 64 word)
        = of_nat (length (filter (\<lambda>x. RequestAttributesAreSet (attributes (handles w x)) IFD)
            (in_flight_requests (client w))))
          - (if RequestAttributesAreSet (attributes (handles w r)) IFD then 1 else 0)
          + (if RequestAttributesAreSet (attributes (handles (SetRequestAttributes r a w) r)) IFD
             then 1 else 0)"
    by (rule count_change [OF d assms(2)]) simp
  moreover have "r \<notin> set (queue (pending_requests (client w)))"
    using assms(1,2) by (auto simp: well_tracked_def)
  moreover have "\<not> RequestAttributesAreSet (attributes (handles w r)) kAttributeLayoutBlocking"
    using assms(1,2) by (auto simp: well_tracked_def tracked_def)
  ultimately show ?thesis
    using assms by (auto simp: well_tracked_def tracked_def)
qed


lemma well_tracked_InsertInFlightRequest:
  assumes "well_tracked w" and "r \<notin> tracked w"
    and "\<not> RequestAttributesAreSet (attributes (handles w r)) IFD"
    and "\<not> RequestAttributesAreSet (attributes (handles w r)) kAttributeLayoutBlocking"
  shows "well_tracked (InsertInFlightRequest env r w)"
proof -
  let ?w1 = "w\<lparr>client := (client w)\<lparr>in_flight_requests :=
                List.insert r (in_flight_requests (client w))\<rparr>\<rparr>"
  have ins: "in_flight_requests (client ?w1) = r # in_flight_requests (client w)"
    using assms(2) by (simp add: tracked_def)
  have wt1: "well_tracked ?w1"
    using assms by (auto simp: well_tracked_def tracked_def)
  have "\<not> RequestAttributesAreSet (DetermineRequestAttributes env ?w1 r) kAttributeLayoutBlocking"
    using assms(4) by (simp add: Determine_bits(1))
  with wt1 have "well_tracked (SetRequestAttributes r (DetermineRequestAttributes env ?w1 r) ?w1)"
    by (intro well_tracked_SetRequestAttributes_in_flight) (simp_all add: ins)
  then show ?thesis
    by (simp add: InsertInFlightRequest_def Let_def)
qed

lemma well_tracked_StartRequest:
  assumes "well_tracked w" and "r \<notin> tracked w"
    and "\<not> RequestAttributesAreSet (attributes (handles w r)) IFD"
    and "\<not> RequestAttributesAreSet (attributes (handles w r)) kAttributeLayoutBlocking"
  shows "well_tracked (StartRequest env r start_mode trigger w)"
proof -
  let ?w1 = "w\<lparr>client := (client w)\<lparr>last_non_delayable_request_start := Some (NowTicks env)\<rparr>\<rparr>"
  have "well_tracked ?w1 = well_tracked w"
    by (rule well_tracked_cong) simp_all
  moreover have "tracked ?w1 = tracked w"
    by (simp add: tracked_def)
  ultimately have "well_tracked (InsertInFlightRequest env r ?w1)"
    using assms by (intro well_tracked_InsertInFlightRequest) simp_all
  moreover have "well_tracked (InsertInFlightRequest env r w)"
    using assms by (rule well_tracked_InsertInFlightRequest)
  ultimately show ?thesis
    by (simp add: StartRequest_def Let_def)
qed

lemma well_tracked_EraseInFlightRequest:
  assumes "well_tracked w" and "r \<in> set (in_flight_requests (client w))"
  shows "well_tracked (EraseInFlightRequest r w)"
proof -
  let ?w1 = "w\<lparr>client := (client w)\<lparr>in_flight_requests :=
                removeAll r (in_flight_requests (client w))\<rparr>\<rparr>"
  have d: "distinct (in_flight_requests (client w))"
    using assms(1) by (simp add: well_tracked_def)
  have cnt: "(of_nat (length (filter (\<lambda>x. RequestAttributesAreSet (attributes (handles w x)) IFD)
                (removeAll r (in_flight_requests (client w))))) :: 64 word)
         = of_nat (length (filter (\<lambda>x. RequestAttributesAreSet (attributes (handles w x)) IFD)
                (in_flight_requests (client w))))
           - (if RequestAttributesAreSet (attributes (handles w r)) IFD then 1 else 0)"
    by (rule count_removeAll [OF d assms(2)])
  have filt: "filter (\<lambda>x. RequestAttributesAreSet
                    (attributes (handles (SetRequestAttributes r kAttributeNone ?w1) x)) IFD)
                (removeAll r (in_flight_requests (client w)))
        = filter (\<lambda>x. RequestAttributesAreSet (attributes (handles w x)) IFD)
            (removeAll r (in_flight_requests (client w)))"
    by (intro filter_cong) auto
  have nolb: "\<not> RequestAttributesAreSet (attributes (handles w r)) kAttributeLayoutBlocking"
    using assms by (auto simp: well_tracked_def tracked_def)
  have none: "\<not> RequestAttributesAreSet kAttributeNone IFD"
    "\<not> RequestAttributesAreSet kAttributeNone kAttributeLayoutBlocking"
    by (simp_all add: RequestAttributesAreSet_def IFD_def attr_defs)
  have rq: "r \<notin> set (queue (pending_requests (client w)))"
    using assms by (auto simp: well_tracked_def)
  show ?thesis
    using assms(1) cnt filt nolb none rq
    by (auto simp: EraseInFlightRequest_def well_tracked_def tracked_def distinct_removeAll)
qed

lemma well_tracked_loop:
  "well_tracked w \<Longrightarrow> well_tracked (LoadAnyStartablePendingRequests_loop env trigger w i)"
proof (induction env trigger w i rule: LoadAnyStartablePendingRequests_loop.induct)
  case (1 env trigger w i)
  show ?case
  proof (cases "i \<ge> length (queue (pending_requests (client w)))")
    case True
    with "1.prems" show ?thesis
      by (subst LoadAnyStartablePendingRequests_loop.simps) simp
  next
    case False
    let ?r = "queue (pending_requests (client w)) ! i"
    have rq: "?r \<in> set (queue (pending_requests (client w)))"
      using False by simp
    show ?thesis
    proof (cases "ShouldStartRequest env w ?r")
      case DO_NOT_START_REQUEST_AND_STOP_SEARCHING
      with False "1.prems" show ?thesis
        by (subst LoadAnyStartablePendingRequests_loop.simps) simp
    next
      case DO_NOT_START_REQUEST_AND_KEEP_SEARCHING
      with False "1.prems" "1.IH"(1) show ?thesis
        by (subst LoadAnyStartablePendingRequests_loop.simps) simp
    next
      case START_REQUEST
      have "well_tracked (Erase ?r w)"
        using "1.prems" by (rule well_tracked_Erase)
      moreover have "?r \<notin> tracked (Erase ?r w)"
        using "1.prems" rq by (auto simp: well_tracked_def tracked_def)
      moreover have "\<not> RequestAttributesAreSet (attributes (handles (Erase ?r w) ?r)) IFD"
        "\<not> RequestAttributesAreSet (attributes (handles (Erase ?r w) ?r)) kAttributeLayoutBlocking"
        using "1.prems" rq by (auto simp: well_tracked_def tracked_def)
      ultimately have "well_tracked (StartRequest env ?r START_ASYNC trigger (Erase ?r w))"
        by (rule well_tracked_StartRequest)
      with False START_REQUEST "1.IH"(2) show ?thesis
        by (subst LoadAnyStartablePendingRequests_loop.simps) simp
    qed
  qed
qed

lemma well_tracked_LoadAnyStartablePendingRequests:
  assumes "well_tracked w"
  shows "well_tracked (LoadAnyStartablePendingRequests env trigger w)"
proof -
  have "well_tracked (w\<lparr>client := (client w)\<lparr>num_skipped_scans_due_to_scheduled_start := 0\<rparr>\<rparr>)
          = well_tracked w"
    by (rule well_tracked_cong) simp_all
  with assms show ?thesis
    by (simp add: LoadAnyStartablePendingRequests_def well_tracked_loop)
qed


lemma well_tracked_New:
  assumes "well_tracked w" and "r \<notin> tracked w"
  shows "well_tracked (NewScheduledResourceRequestImpl cid req prio async r w)"
    and "tracked (NewScheduledResourceRequestImpl cid req prio async r w) = tracked w"
    and "attributes (handles (NewScheduledResourceRequestImpl cid req prio async r w) r)
           = kAttributeNone"
proof -
  let ?w' = "NewScheduledResourceRequestImpl cid req prio async r w"
  have same: "in_flight_requests (client ?w') = in_flight_requests (client w)"
    "queue (pending_requests (client ?w')) = queue (pending_requests (client w))"
    "in_flight_delayable_count (client ?w') = in_flight_delayable_count (client w)"
    "total_layout_blocking_count (client ?w') = total_layout_blocking_count (client w)"
    "\<And>x. x \<noteq> r \<Longrightarrow> attributes (handles ?w' x) = attributes (handles w x)"
    by (simp_all add: NewScheduledResourceRequestImpl_def)
  have eq: "attributes (handles ?w' x) = attributes (handles w x)" if "x \<in> tracked w" for x
    using that assms(2) same(5) by metis
  have "filter (\<lambda>x. RequestAttributesAreSet (attributes (handles ?w' x)) IFD)
          (in_flight_requests (client w))
        = filter (\<lambda>x. RequestAttributesAreSet (attributes (handles w x)) IFD)
            (in_flight_requests (client w))"
    by (intro filter_cong) (simp_all add: eq tracked_def)
  moreover have "\<forall>x \<in> tracked w. attributes (handles ?w' x) = attributes (handles w x)"
    using eq by simp
  ultimately show "well_tracked ?w'"
    using assms(1) by (simp add: well_tracked_def tracked_def same(1-4))
  show "tracked ?w' = tracked w"
    by (simp add: tracked_def same)
  show "attributes (handles ?w' r) = kAttributeNone"
    by (simp add: NewScheduledResourceRequestImpl_def)
qed

lemma none_bits:
  "\<not> RequestAttributesAreSet kAttributeNone IFD"
  "\<not> RequestAttributesAreSet kAttributeNone kAttributeLayoutBlocking"
  by (simp_all add: RequestAttributesAreSet_def IFD_def attr_defs)

lemma well_tracked_Client_ScheduleRequest:
  assumes "well_tracked w" and "r \<notin> tracked w"
    and "attributes (handles w r) = kAttributeNone"
  shows "well_tracked (Client_ScheduleRequest env r w)"
proof -
  let ?a = "DetermineRequestAttributes env w r"
  let ?w1 = "SetRequestAttributes r ?a w"
  have rif: "r \<notin> set (in_flight_requests (client w))"
    using assms(2) by (simp add: tracked_def)
  have a: "\<not> RequestAttributesAreSet ?a IFD" "\<not> RequestAttributesAreSet ?a kAttributeLayoutBlocking"
    using rif Determine_bits(2) [of env w r] assms(3) by (auto simp: Determine_bits(1) none_bits)
  have wt1: "well_tracked ?w1"
    using assms(1) rif a by (intro well_tracked_SetRequestAttributes_not_in_flight)
      (simp_all add: assms(3) none_bits)
  have tr1: "r \<notin> tracked ?w1"
    using assms(2) by (simp add: tracked_def)
  have at1: "\<not> RequestAttributesAreSet (attributes (handles ?w1 r)) IFD"
    "\<not> RequestAttributesAreSet (attributes (handles ?w1 r)) kAttributeLayoutBlocking"
    using a by simp_all
  have "well_tracked (StartRequest env r START_SYNC NONE ?w1)"
    using wt1 tr1 at1 by (rule well_tracked_StartRequest)
  moreover have "well_tracked (Insert r ?w1)"
    using wt1 tr1 at1(2) at1(1) by (rule well_tracked_Insert)
  ultimately show ?thesis
    by (simp add: Client_ScheduleRequest_def Let_def)
qed

lemma well_tracked_Client_RemoveRequest:
  assumes "well_tracked w" and "r \<in> tracked w"
  shows "well_tracked (Client_RemoveRequest env r w)"
proof (cases "IsQueued (pending_requests (client w)) r")
  case True
  with assms(1) show ?thesis
    by (simp add: Client_RemoveRequest_def well_tracked_Erase)
next
  case False
  then have rif: "r \<in> set (in_flight_requests (client w))"
    using assms(2) by (simp add: tracked_def IsQueued_def)
  let ?w1 = "w\<lparr>client := (client w)\<lparr>last_non_delayable_request_end := Some (NowTicks env)\<rparr>\<rparr>"
  have "well_tracked ?w1 = well_tracked w"
    by (rule well_tracked_cong) simp_all
  then have "well_tracked (EraseInFlightRequest r ?w1)"
    using assms(1) rif by (intro well_tracked_EraseInFlightRequest) simp_all
  moreover have "well_tracked (EraseInFlightRequest r w)"
    using assms(1) rif by (rule well_tracked_EraseInFlightRequest)
  ultimately show ?thesis
    using False
    by (simp add: Client_RemoveRequest_def Let_def well_tracked_LoadAnyStartablePendingRequests)
qed


lemma well_tracked_Client_ReprioritizeRequest:
  assumes "well_tracked w" and "r \<in> tracked w"
  shows "well_tracked (Client_ReprioritizeRequest env r old_priority_params new_priority_params w)"
proof -
  let ?w2 = "set_request_priority_params r new_priority_params
               (SetPriority (request (handles w r)) (priority new_priority_params) w)"
  let ?a = "DetermineRequestAttributes env ?w2 r"
  let ?w3 = "SetRequestAttributes r ?a ?w2"
  have same: "in_flight_requests (client ?w2) = in_flight_requests (client w)"
    "queue (pending_requests (client ?w2)) = queue (pending_requests (client w))"
    "\<And>x. attributes (handles ?w2 x) = attributes (handles w x)"
    "in_flight_delayable_count (client ?w2) = in_flight_delayable_count (client w)"
    "total_layout_blocking_count (client ?w2) = total_layout_blocking_count (client w)"
    by (simp_all add: set_request_priority_params_def SetPriority_def)
  have wt2: "well_tracked ?w2"
    using assms(1) well_tracked_cong [OF same] by simp
  have nolb: "\<not> RequestAttributesAreSet (attributes (handles ?w2 r)) kAttributeLayoutBlocking"
    using assms by (simp add: same well_tracked_def)
  then have a_lb: "\<not> RequestAttributesAreSet ?a kAttributeLayoutBlocking"
    by (simp add: Determine_bits(1))
  have q3: "queue (pending_requests (client ?w3)) = queue (pending_requests (client w))"
    by (simp add: same)
  show ?thesis
  proof (cases "r \<in> set (in_flight_requests (client w))")
    case True
    then have "well_tracked ?w3"
      using wt2 a_lb by (intro well_tracked_SetRequestAttributes_in_flight) (simp_all add: same)
    moreover have "\<not> IsQueued (pending_requests (client ?w3)) r"
      using True assms(1) by (auto simp: IsQueued_def same well_tracked_def)
    ultimately show ?thesis
      by (simp add: Client_ReprioritizeRequest_def Let_def)
  next
    case False
    then have rq: "r \<in> set (queue (pending_requests (client w)))"
      using assms(2) by (simp add: tracked_def)
    have old_ifd: "\<not> RequestAttributesAreSet (attributes (handles ?w2 r)) IFD"
      using assms(1) rq by (simp add: same well_tracked_def)
    have a_ifd: "\<not> RequestAttributesAreSet ?a IFD"
      using False Determine_bits(2) [of env ?w2 r] by (auto simp: same)
    have wt3: "well_tracked ?w3"
      using wt2 False old_ifd nolb a_ifd a_lb
      by (intro well_tracked_SetRequestAttributes_not_in_flight) (simp_all add: same)
    have wte: "well_tracked (Erase r ?w3)"
      using wt3 by (rule well_tracked_Erase)
    have "r \<notin> tracked (Erase r ?w3)"
      using False assms(1) by (simp add: tracked_def same well_tracked_def)
    moreover have "\<not> RequestAttributesAreSet (attributes (handles (Erase r ?w3) r))
                       kAttributeLayoutBlocking"
      "\<not> RequestAttributesAreSet (attributes (handles (Erase r ?w3) r)) IFD"
      using a_lb a_ifd by simp_all
    ultimately have wt4: "well_tracked (Insert r (Erase r ?w3))"
      using wte by (intro well_tracked_Insert)
    have "well_tracked (ScheduleLoadAnyStartablePendingRequests REQUEST_REPRIORITIZED
                          (Insert r (Erase r ?w3)))
            = well_tracked (Insert r (Erase r ?w3))"
      by (rule well_tracked_cong)
         (simp_all add: ScheduleLoadAnyStartablePendingRequests_def Let_def)
    with wt4 rq show ?thesis
      by (simp add: Client_ReprioritizeRequest_def Let_def IsQueued_def same)
  qed
qed

lemma queue_drained:
  "queue (pending_requests (client (StartAndRemoveAllRequests_loop env w))) = []"
proof (induction env w rule: StartAndRemoveAllRequests_loop.induct)
  case (1 env w)
  show ?case
  proof (cases "queue (pending_requests (client w))")
    case Nil
    then show ?thesis
      by (subst StartAndRemoveAllRequests_loop.simps) simp
  next
    case (Cons x xs)
    with "1.IH" [OF Cons] show ?thesis
      by (subst StartAndRemoveAllRequests_loop.simps) simp
  qed
qed

lemma queue_fold_set_attributes:
  "queue (pending_requests (client (fold (\<lambda>r. set_attributes r a) xs w)))
     = queue (pending_requests (client w))"
  by (induction xs arbitrary: w) (simp_all add: set_attributes_def)

lemma well_tracked_StartAndRemoveAllRequests:
  "well_tracked (snd (StartAndRemoveAllRequests env w))"
  by (simp add: StartAndRemoveAllRequests_def Let_def ClearInFlightRequests_def
        well_tracked_def tracked_def queue_fold_set_attributes queue_drained)


lemma well_tracked_client_update:
  assumes "well_tracked w"
    and "in_flight_requests c = in_flight_requests (client w)"
    and "pending_requests c = pending_requests (client w)"
    and "in_flight_delayable_count c = in_flight_delayable_count (client w)"
    and "total_layout_blocking_count c = total_layout_blocking_count (client w)"
  shows "well_tracked (w\<lparr>client := c\<rparr>)"
proof -
  have "well_tracked (w\<lparr>client := c\<rparr>) = well_tracked w"
    by (rule well_tracked_cong) (simp_all add: assms(2-5))
  with assms(1) show ?thesis by simp
qed

lemma well_tracked_OnEffectiveConnectionTypeChanged:
  assumes "well_tracked w"
  shows "well_tracked (OnEffectiveConnectionTypeChanged env ect w)"
proof -
  have "well_tracked (w\<lparr>client := UpdateParamsForNetworkQuality env
                             ((client w)\<lparr>effective_connection_type := ect\<rparr>)\<rparr>)"
    unfolding UpdateParamsForNetworkQuality_def
    by (intro well_tracked_client_update assms) simp_all
  with assms show ?thesis
    by (simp add: OnEffectiveConnectionTypeChanged_def
          well_tracked_LoadAnyStartablePendingRequests)
qed

lemma well_tracked_OnPeerToPeerConnectionsCountChange:
  assumes "well_tracked w"
  shows "well_tracked (OnPeerToPeerConnectionsCountChange env count w)"
  unfolding OnPeerToPeerConnectionsCountChange_def Let_def
  by (auto intro!: well_tracked_LoadAnyStartablePendingRequests well_tracked_client_update assms)

lemma reachable_well_tracked: "reachable w \<Longrightarrow> well_tracked w"
proof (induction rule: reachable.induct)
  case (created u h ts l env cid browser estimator)
  show ?case
    by (simp add: well_tracked_def tracked_def NewClient_def Let_def
          UpdateParamsForNetworkQuality_def split: option.split)
next
  case (scheduled w r env cid req prio async)
  from well_tracked_New [OF scheduled.IH scheduled.hyps(2)] scheduled.hyps(2) show ?case
    by (intro well_tracked_Client_ScheduleRequest) simp_all
next
  case (removed w r env)
  then show ?case by (simp add: well_tracked_Client_RemoveRequest)
next
  case (reprioritized w r env old_priority_params new_priority_params)
  then show ?case by (simp add: well_tracked_Client_ReprioritizeRequest)
next
  case (pass w env trigger)
  then show ?case by (simp add: well_tracked_LoadAnyStartablePendingRequests)
next
  case (pass_scheduled w trigger)
  have "well_tracked (ScheduleLoadAnyStartablePendingRequests trigger w) = well_tracked w"
    by (rule well_tracked_cong)
       (simp_all add: ScheduleLoadAnyStartablePendingRequests_def Let_def)
  with pass_scheduled.IH show ?case by simp
next
  case (drained w env)
  show ?case by (rule well_tracked_StartAndRemoveAllRequests)
next
  case (will_start w r)
  have "well_tracked (WillStartRequest r w) = well_tracked w"
    by (rule well_tracked_cong) (simp_all add: WillStartRequest_def)
  with will_start.IH show ?case by simp
next
  case (start_task_run w r)
  then show ?case by simp
next
  case (connection_type_changed w env ect)
  from connection_type_changed.IH show ?case
    by (rule well_tracked_OnEffectiveConnectionTypeChanged)
next
  case (p2p_connections_changed w env count)
  from p2p_connections_changed.IH show ?case
    by (rule well_tracked_OnPeerToPeerConnectionsCountChange)
next
  case (requests_changed w u)
  have "well_tracked (w\<lparr>url_requests := u\<rparr>) = well_tracked w"
    by (rule well_tracked_cong) simp_all
  with requests_changed.IH show ?case by simp
next
  case (tasks_taken w ts)
  have "well_tracked (w\<lparr>posted_tasks := ts\<rparr>) = well_tracked w"
    by (rule well_tracked_cong) simp_all
  with tasks_taken.IH show ?case by simp
qed

text \<open>
  C10. In every state that the operations of a client reach (submission, removal,
  re-prioritization, the admission pass, the drain at teardown), the cached counter of
  in-flight delayable requests equals the number of tracked requests whose attributes
  include both InFlight and Delayable, and the cached layout-blocking counter equals the
  number of tracked requests whose attributes include LayoutBlocking: the counts that
  \<^verbatim>\<open>CountRequestsWithAttributes\<close> computes.
\<close>

theorem C10_cached_counters:
  assumes "reachable w"
  shows "in_flight_delayable_count (client w)
           = CountRequestsWithAttributes (kAttributeInFlight OR kAttributeDelayable) None w
       \<and> total_layout_blocking_count (client w)
           = CountRequestsWithAttributes kAttributeLayoutBlocking None w"
proof -
  have wt: "well_tracked w"
    using assms by (rule reachable_well_tracked)
  have "filter (\<lambda>r. RequestAttributesAreSet (attributes (handles w r)) kAttributeLayoutBlocking)
          (in_flight_requests (client w)) = []"
    "filter (\<lambda>r. RequestAttributesAreSet (attributes (handles w r)) kAttributeLayoutBlocking)
          (queue (pending_requests (client w))) = []"
    using wt by (auto simp: well_tracked_def tracked_def filter_empty_conv)
  moreover have "RequestAttributesAreSet (kAttributeInFlight OR kAttributeDelayable) kAttributeInFlight"
    "\<not> RequestAttributesAreSet kAttributeLayoutBlocking kAttributeInFlight"
    by (simp_all add: RequestAttributesAreSet_def attr_defs)
  ultimately show ?thesis
    using wt by (simp add: CountRequestsWithAttributes_def Let_def well_tracked_def IFD_def)
qed

theorem C10_cached_counters_witness:
  "reachable (submit example_env True 1 (example_world (\<lambda>_. example_request ''a.test'' LOW)))
   \<and> in_flight_delayable_count
       (client (submit example_env True 1 (example_world (\<lambda>_. example_request ''a.test'' LOW)))) = 1
   \<and> CountRequestsWithAttributes (kAttributeInFlight OR kAttributeDelayable) None
       (submit example_env True 1 (example_world (\<lambda>_. example_request ''a.test'' LOW))) = 1"
proof -
  have r: "reachable (submit example_env True 1 (example_world (\<lambda>_. example_request ''a.test'' LOW)))"
    unfolding submit_def example_world_def
    by (rule reachable.scheduled [OF reachable.created])
      (simp add: tracked_def NewClient_def Let_def UpdateParamsForNetworkQuality_def)
  have c: "in_flight_delayable_count
       (client (submit example_env True 1 (example_world (\<lambda>_. example_request ''a.test'' LOW)))) = 1"
    by code_simp
  show ?thesis
    using r c C10_cached_counters [OF r] by simp
qed

subsection \<open>The order of the pending queue\<close>

lemma priority_ordinal_inj [simp]: "priority_ordinal p = priority_ordinal q \<longleftrightarrow> p = q"
  by (cases p; cases q) simp_all

lemma Sorter_lexicographic:
  "ScheduledResourceSorter a b \<longleftrightarrow>
     priority_ordinal (priority (priority_params a)) > priority_ordinal (priority (priority_params b))
   \<or> (priority (priority_params a) = priority (priority_params b)
      \<and> (intra_priority (priority_params a) > intra_priority (priority_params b)
         \<or> (intra_priority (priority_params a) = intra_priority (priority_params b)
            \<and> fifo_ordering a < fifo_ordering b)))"
proof -
  have eq: "priority_params a = priority_params b \<longleftrightarrow>
        priority (priority_params a) = priority (priority_params b)
      \<and> intra_priority (priority_params a) = intra_priority (priority_params b)"
    by (cases "priority_params a"; cases "priority_params b") simp
  show ?thesis
    unfolding ScheduledResourceSorter_def GreaterThan_def eq
    by (auto simp: less_le)
qed

lemma Sorter_irrefl: "\<not> ScheduledResourceSorter a a"
  by (simp add: Sorter_lexicographic)

lemma Sorter_trans:
  "ScheduledResourceSorter a b \<Longrightarrow> ScheduledResourceSorter b c \<Longrightarrow> ScheduledResourceSorter a c"
  unfolding Sorter_lexicographic by (elim disjE conjE) auto

lemma Sorter_asym: "ScheduledResourceSorter a b \<Longrightarrow> \<not> ScheduledResourceSorter b a"
  using Sorter_trans Sorter_irrefl by blast

lemma Sorter_negtrans:
  "\<not> ScheduledResourceSorter a b \<Longrightarrow> \<not> ScheduledResourceSorter b c \<Longrightarrow> \<not> ScheduledResourceSorter a c"
  unfolding Sorter_lexicographic by (auto simp: not_less)

lemma Sorter_total:
  "ScheduledResourceSorter a b \<or> ScheduledResourceSorter b a
   \<or> (priority_params a = priority_params b \<and> fifo_ordering a = fifo_ordering b)"
proof -
  have eq: "priority_params a = priority_params b \<longleftrightarrow>
        priority (priority_params a) = priority (priority_params b)
      \<and> intra_priority (priority_params a) = intra_priority (priority_params b)"
    by (cases "priority_params a"; cases "priority_params b") simp
  have "priority (priority_params a) \<noteq> priority (priority_params b) \<Longrightarrow>
    priority_ordinal (priority (priority_params a)) < priority_ordinal (priority (priority_params b))
    \<or> priority_ordinal (priority (priority_params b)) < priority_ordinal (priority (priority_params a))"
    by (metis priority_ordinal_inj nat_neq_iff)
  then show ?thesis
    unfolding Sorter_lexicographic eq by (auto simp: not_less)
qed

lemma sorted_multiset_insert:
  assumes "sorted_wrt (\<lambda>x y. \<not> ScheduledResourceSorter (hs y) (hs x)) xs"
  shows "sorted_wrt (\<lambda>x y. \<not> ScheduledResourceSorter (hs y) (hs x)) (multiset_insert hs r xs)"
  using assms
proof (induction xs)
  case Nil
  then show ?case by simp
next
  case (Cons x xs)
  show ?case
  proof (cases "ScheduledResourceSorter (hs r) (hs x)")
    case True
    have "\<not> ScheduledResourceSorter (hs z) (hs r)" if "z \<in> set (x # xs)" for z
    proof
      assume zr: "ScheduledResourceSorter (hs z) (hs r)"
      then have "ScheduledResourceSorter (hs z) (hs x)"
        using True by (rule Sorter_trans)
      moreover have "z = x \<or> \<not> ScheduledResourceSorter (hs z) (hs x)"
        using that Cons.prems by auto
      ultimately show False
        using Sorter_irrefl by auto
    qed
    with Cons.prems True show ?thesis by simp
  next
    case False
    with Cons show ?thesis by auto
  qed
qed

lemma precedes_multiset_insert:
  assumes "sorted_wrt (\<lambda>x y. \<not> ScheduledResourceSorter (hs y) (hs x)) xs"
    and "x \<in> set xs" and "r \<notin> set xs"
    and "\<not> ScheduledResourceSorter (hs r) (hs x)"
  shows "precedes x r (multiset_insert hs r xs)"
  using assms
proof (induction xs)
  case Nil
  then show ?case by simp
next
  case (Cons y ys)
  have yr: "y \<noteq> r" using Cons.prems(3) by auto
  show ?case
  proof (cases "ScheduledResourceSorter (hs r) (hs y)")
    case True
    have "x \<noteq> y" using True Cons.prems(4) by auto
    then have "x \<in> set ys" using Cons.prems(2) by simp
    then have "\<not> ScheduledResourceSorter (hs x) (hs y)"
      using Cons.prems(1) by simp
    with Cons.prems(4) have "\<not> ScheduledResourceSorter (hs r) (hs y)"
      by (rule Sorter_negtrans)
    with True show ?thesis by simp
  next
    case False
    show ?thesis
    proof (cases "x = y")
      case True
      with False yr show ?thesis by (simp add: precedes_def)
    next
      case xy: False
      then have "precedes x r (multiset_insert hs r ys)"
        using Cons by auto
      with False yr show ?thesis by (simp add: precedes_def)
    qed
  qed
qed

lemma sorted_wrt_remove1: "sorted_wrt R xs \<Longrightarrow> sorted_wrt R (remove1 r xs)"
  by (induction xs) (auto dest: notin_set_remove1)

lemma keys_Start [simp]:
  "priority_params (handles (Start start_mode r w) x) = priority_params (handles w x)"
  "fifo_ordering (handles (Start start_mode r w) x) = fifo_ordering (handles w x)"
  by (simp_all add: Start_def)

lemma keys_SetRequestAttributes [simp]:
  "priority_params (handles (SetRequestAttributes r a w) x) = priority_params (handles w x)"
  "fifo_ordering (handles (SetRequestAttributes r a w) x) = fifo_ordering (handles w x)"
  by (simp_all add: SetRequestAttributes_def set_attributes_def Let_def)

lemma keys_StartRequest [simp]:
  "priority_params (handles (StartRequest env r start_mode trigger w) x)
     = priority_params (handles w x)"
  "fifo_ordering (handles (StartRequest env r start_mode trigger w) x)
     = fifo_ordering (handles w x)"
  by (simp_all add: StartRequest_def InsertInFlightRequest_def Let_def)

lemma sorted_keys:
  assumes "sorted_wrt (\<lambda>x y. \<not> ScheduledResourceSorter (hs y) (hs x)) xs"
    and "\<And>x. x \<in> set xs \<Longrightarrow> priority_params (hs' x) = priority_params (hs x)
                               \<and> fifo_ordering (hs' x) = fifo_ordering (hs x)"
  shows "sorted_wrt (\<lambda>x y. \<not> ScheduledResourceSorter (hs' y) (hs' x)) xs"
  using assms(1)
proof (rule sorted_wrt_mono_rel [rotated])
  fix x y
  assume "x \<in> set xs" "y \<in> set xs" "\<not> ScheduledResourceSorter (hs y) (hs x)"
  then show "\<not> ScheduledResourceSorter (hs' y) (hs' x)"
    using assms(2) [of x] assms(2) [of y]
    unfolding ScheduledResourceSorter_def by (auto split: if_splits)
qed

lemma queue_sorted_cong:
  assumes "queue_sorted w"
    and "queue (pending_requests (client w')) = queue (pending_requests (client w))"
    and "\<And>x. x \<in> set (queue (pending_requests (client w))) \<Longrightarrow>
            priority_params (handles w' x) = priority_params (handles w x)
          \<and> fifo_ordering (handles w' x) = fifo_ordering (handles w x)"
  shows "queue_sorted w'"
  using sorted_keys [OF assms(1) [unfolded queue_sorted_def], of "handles w'"] assms(2,3)
  by (simp add: queue_sorted_def)

lemma queue_sorted_Erase: "queue_sorted w \<Longrightarrow> queue_sorted (Erase r w)"
  by (simp add: queue_sorted_def sorted_wrt_remove1)

lemma queue_sorted_Insert:
  assumes "queue_sorted w" and "r \<notin> set (queue (pending_requests (client w)))"
  shows "queue_sorted (Insert r w)"
proof -
  let ?w1 = "set_fifo_ordering r (fifo_ordering_ids (pending_requests (client w)) + 1) w"
  have "sorted_wrt (\<lambda>x y. \<not> ScheduledResourceSorter (handles ?w1 y) (handles ?w1 x))
          (queue (pending_requests (client w)))"
    using assms by (intro sorted_keys [OF assms(1) [unfolded queue_sorted_def]])
      (auto simp: set_fifo_ordering_def)
  then have "sorted_wrt (\<lambda>x y. \<not> ScheduledResourceSorter (handles ?w1 y) (handles ?w1 x))
          (multiset_insert (handles ?w1) r (queue (pending_requests (client w))))"
    by (rule sorted_multiset_insert)
  then show ?thesis
    by (simp add: queue_sorted_def Insert_def MakeFifoOrderingId_def Let_def set_fifo_ordering_def)
qed

lemma queue_sorted_StartRequest:
  "queue_sorted w \<Longrightarrow> queue_sorted (StartRequest env r start_mode trigger w)"
  by (erule queue_sorted_cong) simp_all

lemma queue_sorted_SetRequestAttributes:
  "queue_sorted w \<Longrightarrow> queue_sorted (SetRequestAttributes r a w)"
  by (erule queue_sorted_cong) simp_all

lemma queue_sorted_loop:
  "queue_sorted w \<Longrightarrow> queue_sorted (LoadAnyStartablePendingRequests_loop env trigger w i)"
proof (induction env trigger w i rule: LoadAnyStartablePendingRequests_loop.induct)
  case (1 env trigger w i)
  show ?case
  proof (cases "i \<ge> length (queue (pending_requests (client w)))")
    case True
    with "1.prems" show ?thesis
      by (subst LoadAnyStartablePendingRequests_loop.simps) simp
  next
    case False
    let ?r = "queue (pending_requests (client w)) ! i"
    show ?thesis
    proof (cases "ShouldStartRequest env w ?r")
      case DO_NOT_START_REQUEST_AND_STOP_SEARCHING
      with False "1.prems" show ?thesis
        by (subst LoadAnyStartablePendingRequests_loop.simps) simp
    next
      case DO_NOT_START_REQUEST_AND_KEEP_SEARCHING
      with False "1.prems" "1.IH"(1) show ?thesis
        by (subst LoadAnyStartablePendingRequests_loop.simps) simp
    next
      case START_REQUEST
      have "queue_sorted (StartRequest env ?r START_ASYNC trigger (Erase ?r w))"
        using "1.prems" by (intro queue_sorted_StartRequest queue_sorted_Erase)
      with False START_REQUEST "1.IH"(2) show ?thesis
        by (subst LoadAnyStartablePendingRequests_loop.simps) simp
    qed
  qed
qed

lemma queue_sorted_LoadAnyStartablePendingRequests:
  assumes "queue_sorted w"
  shows "queue_sorted (LoadAnyStartablePendingRequests env trigger w)"
proof -
  have "queue_sorted (w\<lparr>client := (client w)\<lparr>num_skipped_scans_due_to_scheduled_start := 0\<rparr>\<rparr>)"
    using assms by (rule queue_sorted_cong) simp_all
  then show ?thesis
    by (simp add: LoadAnyStartablePendingRequests_def queue_sorted_loop)
qed

lemma queue_sorted_Client_ScheduleRequest:
  assumes "queue_sorted w" and "r \<notin> tracked w"
  shows "queue_sorted (Client_ScheduleRequest env r
           (NewScheduledResourceRequestImpl cid req prio async r w))"
proof -
  let ?w0 = "NewScheduledResourceRequestImpl cid req prio async r w"
  let ?w1 = "SetRequestAttributes r (DetermineRequestAttributes env ?w0 r) ?w0"
  have rq: "r \<notin> set (queue (pending_requests (client w)))"
    using assms(2) by (simp add: tracked_def)
  have "queue_sorted ?w0"
    using rq by (intro queue_sorted_cong [OF assms(1)])
      (auto simp: NewScheduledResourceRequestImpl_def)
  then have s1: "queue_sorted ?w1"
    by (rule queue_sorted_SetRequestAttributes)
  have "r \<notin> set (queue (pending_requests (client ?w1)))"
    using rq by (simp add: NewScheduledResourceRequestImpl_def)
  with s1 have "queue_sorted (Insert r ?w1)"
    by (rule queue_sorted_Insert)
  moreover have "queue_sorted (StartRequest env r START_SYNC NONE ?w1)"
    using s1 by (rule queue_sorted_StartRequest)
  ultimately show ?thesis
    by (simp add: Client_ScheduleRequest_def Let_def)
qed

lemma queue_sorted_Client_RemoveRequest:
  assumes "queue_sorted w"
  shows "queue_sorted (Client_RemoveRequest env r w)"
proof -
  have a: "queue_sorted (EraseInFlightRequest r w)"
    using assms by (rule queue_sorted_cong) (simp_all add: EraseInFlightRequest_def)
  have b: "queue_sorted (EraseInFlightRequest r
             (w\<lparr>client := (client w)\<lparr>last_non_delayable_request_end := Some (NowTicks env)\<rparr>\<rparr>))"
    using assms by (rule queue_sorted_cong) (simp_all add: EraseInFlightRequest_def)
  show ?thesis
    using assms a b
    by (simp add: Client_RemoveRequest_def Let_def queue_sorted_Erase
          queue_sorted_LoadAnyStartablePendingRequests)
qed

lemma queue_sorted_Client_ReprioritizeRequest:
  assumes "queue_sorted w" and "well_tracked w"
  shows "queue_sorted (Client_ReprioritizeRequest env r old_priority_params new_priority_params w)"
proof -
  let ?w2 = "set_request_priority_params r new_priority_params
               (SetPriority (request (handles w r)) (priority new_priority_params) w)"
  let ?w3 = "SetRequestAttributes r (DetermineRequestAttributes env ?w2 r) ?w2"
  have q2: "queue (pending_requests (client ?w2)) = queue (pending_requests (client w))"
    by (simp add: set_request_priority_params_def SetPriority_def)
  have q3: "queue (pending_requests (client ?w3)) = queue (pending_requests (client w))"
    by (simp add: q2)
  have keys: "priority_params (handles ?w3 x) = priority_params (handles w x)
            \<and> fifo_ordering (handles ?w3 x) = fifo_ordering (handles w x)" if "x \<noteq> r" for x
    using that by (simp add: set_request_priority_params_def SetPriority_def)
  show ?thesis
  proof (cases "r \<in> set (queue (pending_requests (client w)))")
    case False
    have "x \<noteq> r" if "x \<in> set (queue (pending_requests (client w)))" for x
      using that False by auto
    then have "queue_sorted ?w3"
      by (intro queue_sorted_cong [OF assms(1) q3] keys)
    with False show ?thesis
      by (simp add: Client_ReprioritizeRequest_def Let_def IsQueued_def q2)
  next
    case True
    have d: "distinct (queue (pending_requests (client w)))"
      using assms(2) by (simp add: well_tracked_def)
    have "sorted_wrt (\<lambda>x y. \<not> ScheduledResourceSorter (handles w y) (handles w x))
            (remove1 r (queue (pending_requests (client w))))"
      using assms(1) by (simp add: queue_sorted_def sorted_wrt_remove1)
    then have "sorted_wrt (\<lambda>x y. \<not> ScheduledResourceSorter (handles ?w3 y) (handles ?w3 x))
            (remove1 r (queue (pending_requests (client w))))"
      by (rule sorted_keys) (rule keys, use d in auto)
    then have e: "queue_sorted (Erase r ?w3)"
      by (simp add: queue_sorted_def q2)
    have "r \<notin> set (queue (pending_requests (client (Erase r ?w3))))"
      using d by (simp add: q2)
    with e have i: "queue_sorted (Insert r (Erase r ?w3))"
      by (rule queue_sorted_Insert)
    then have "queue_sorted (ScheduleLoadAnyStartablePendingRequests REQUEST_REPRIORITIZED
                               (Insert r (Erase r ?w3)))"
      by (rule queue_sorted_cong)
         (simp_all add: ScheduleLoadAnyStartablePendingRequests_def Let_def)
    with i True show ?thesis
      by (simp add: Client_ReprioritizeRequest_def Let_def IsQueued_def q2)
  qed
qed

lemma queue_sorted_client_update:
  assumes "queue_sorted w" and "pending_requests c = pending_requests (client w)"
  shows "queue_sorted (w\<lparr>client := c\<rparr>)"
  using assms(1) by (rule queue_sorted_cong) (simp_all add: assms(2))

lemma queue_sorted_OnEffectiveConnectionTypeChanged:
  assumes "queue_sorted w"
  shows "queue_sorted (OnEffectiveConnectionTypeChanged env ect w)"
proof -
  have "queue_sorted (w\<lparr>client := UpdateParamsForNetworkQuality env
                             ((client w)\<lparr>effective_connection_type := ect\<rparr>)\<rparr>)"
    unfolding UpdateParamsForNetworkQuality_def
    by (intro queue_sorted_client_update assms) simp_all
  with assms show ?thesis
    by (simp add: OnEffectiveConnectionTypeChanged_def
          queue_sorted_LoadAnyStartablePendingRequests)
qed

lemma queue_sorted_OnPeerToPeerConnectionsCountChange:
  assumes "queue_sorted w"
  shows "queue_sorted (OnPeerToPeerConnectionsCountChange env count w)"
  unfolding OnPeerToPeerConnectionsCountChange_def Let_def
  by (auto intro!: queue_sorted_LoadAnyStartablePendingRequests queue_sorted_client_update assms)

lemma reachable_queue_sorted: "reachable w \<Longrightarrow> queue_sorted w"
proof (induction rule: reachable.induct)
  case (created u h ts l env cid browser estimator)
  show ?case
    by (simp add: queue_sorted_def NewClient_def Let_def
          UpdateParamsForNetworkQuality_def split: option.split)
next
  case (scheduled w r env cid req prio async)
  then show ?case by (simp add: queue_sorted_Client_ScheduleRequest)
next
  case (removed w r env)
  then show ?case by (simp add: queue_sorted_Client_RemoveRequest)
next
  case (reprioritized w r env old_priority_params new_priority_params)
  then show ?case
    by (simp add: queue_sorted_Client_ReprioritizeRequest reachable_well_tracked)
next
  case (pass w env trigger)
  then show ?case by (simp add: queue_sorted_LoadAnyStartablePendingRequests)
next
  case (pass_scheduled w trigger)
  from pass_scheduled.IH show ?case
    by (rule queue_sorted_cong)
       (simp_all add: ScheduleLoadAnyStartablePendingRequests_def Let_def)
next
  case (drained w env)
  show ?case
    by (simp add: queue_sorted_def StartAndRemoveAllRequests_def Let_def ClearInFlightRequests_def
          queue_fold_set_attributes queue_drained)
next
  case (will_start w r)
  from will_start.IH show ?case
    by (rule queue_sorted_cong) (simp_all add: WillStartRequest_def)
next
  case (start_task_run w r)
  from start_task_run.IH show ?case
    by (rule queue_sorted_cong) simp_all
next
  case (connection_type_changed w env ect)
  from connection_type_changed.IH show ?case
    by (rule queue_sorted_OnEffectiveConnectionTypeChanged)
next
  case (p2p_connections_changed w env count)
  from p2p_connections_changed.IH show ?case
    by (rule queue_sorted_OnPeerToPeerConnectionsCountChange)
next
  case (requests_changed w u)
  from requests_changed.IH show ?case
    by (rule queue_sorted_cong) simp_all
next
  case (tasks_taken w ts)
  from tasks_taken.IH show ?case
    by (rule queue_sorted_cong) simp_all
qed

subsection \<open>Re-prioritizing a handle of a client\<close>

lemma word_succ_greater:
  "ids \<noteq> - 1 \<Longrightarrow> f \<le> ids \<Longrightarrow> f < ids + (1 :: 32 word)"
  using inc_less_eq_self_iff_eq [of ids] by auto

lemma pending_SetRequestAttributes [simp]:
  "pending_requests (client (SetRequestAttributes r a w)) = pending_requests (client w)"
  "posted_tasks (SetRequestAttributes r a w) = posted_tasks w"
  "url_requests (SetRequestAttributes r a w) = url_requests w"
  "request (handles (SetRequestAttributes r a w) x) = request (handles w x)"
  by (simp_all add: SetRequestAttributes_def set_attributes_def Let_def)

lemma Insert_fields:
  "fifo_ordering (handles (Insert r w) r) = fifo_ordering_ids (pending_requests (client w)) + 1"
  "fifo_ordering_ids (pending_requests (client (Insert r w)))
     = fifo_ordering_ids (pending_requests (client w)) + 1"
  "priority_params (handles (Insert r w) x) = priority_params (handles w x)"
  "request (handles (Insert r w) x) = request (handles w x)"
  "url_requests (Insert r w) = url_requests w"
  "posted_tasks (Insert r w) = posted_tasks w"
  "num_skipped_scans_due_to_scheduled_start (client (Insert r w))
     = num_skipped_scans_due_to_scheduled_start (client w)"
  "queue (pending_requests (client (Insert r w)))
     = multiset_insert
         (handles (set_fifo_ordering r (fifo_ordering_ids (pending_requests (client w)) + 1) w))
         r (queue (pending_requests (client w)))"
  by (simp_all add: Insert_def MakeFifoOrderingId_def set_fifo_ordering_def Let_def)

lemma this_client_fields [simp]:
  "this_client (client (Erase r w)) = this_client (client w)"
  "this_client (client (SetRequestAttributes r a w)) = this_client (client w)"
  "this_client (client (Insert r w)) = this_client (client w)"
  by (simp_all add: Erase_def SetRequestAttributes_def set_attributes_def Insert_def
        MakeFifoOrderingId_def set_fifo_ordering_def Let_def)

lemma Erase_fields [simp]:
  "fifo_ordering_ids (pending_requests (client (Erase r w)))
     = fifo_ordering_ids (pending_requests (client w))"
  "posted_tasks (Erase r w) = posted_tasks w"
  by (simp_all add: Erase_def)

lemma priority_updated_fields [simp]:
  "client (priority_updated r new_priority_params w) = client w"
  "posted_tasks (priority_updated r new_priority_params w) = posted_tasks w"
  "request (handles (priority_updated r new_priority_params w) x) = request (handles w x)"
  "attributes (handles (priority_updated r new_priority_params w) x) = attributes (handles w x)"
  "fifo_ordering (handles (priority_updated r new_priority_params w) x)
     = fifo_ordering (handles w x)"
  "priority_params (handles (priority_updated r new_priority_params w) x)
     = (if x = r then new_priority_params else priority_params (handles w x))"
  "request_priority (url_requests (priority_updated r new_priority_params w)
       (request (handles w r))) = priority new_priority_params"
  by (simp_all add: priority_updated_def set_request_priority_params_def SetPriority_def)

lemma Reprioritize_in_flight:
  assumes "r \<notin> set (queue (pending_requests (client w)))"
  shows "Client_ReprioritizeRequest env r old_priority_params new_priority_params w
           = SetRequestAttributes r
               (DetermineRequestAttributes env (priority_updated r new_priority_params w) r)
               (priority_updated r new_priority_params w)"
  using assms
  by (simp add: Client_ReprioritizeRequest_def Let_def IsQueued_def priority_updated_def [symmetric])

lemma Reprioritize_pending:
  assumes "r \<in> set (queue (pending_requests (client w)))"
  shows "Client_ReprioritizeRequest env r old_priority_params new_priority_params w
           = (let w4 = Insert r (Erase r (SetRequestAttributes r
                         (DetermineRequestAttributes env (priority_updated r new_priority_params w) r)
                         (priority_updated r new_priority_params w)))
              in if priority_ordinal (priority new_priority_params)
                      > priority_ordinal (priority old_priority_params)
                 then ScheduleLoadAnyStartablePendingRequests REQUEST_REPRIORITIZED w4
                 else w4)"
  using assms
  by (simp add: Client_ReprioritizeRequest_def Let_def IsQueued_def priority_updated_def [symmetric])

lemma Schedule_fields [simp]:
  "handles (ScheduleLoadAnyStartablePendingRequests trigger w) = handles w"
  "url_requests (ScheduleLoadAnyStartablePendingRequests trigger w) = url_requests w"
  "pending_requests (client (ScheduleLoadAnyStartablePendingRequests trigger w))
     = pending_requests (client w)"
  "in_flight_requests (client (ScheduleLoadAnyStartablePendingRequests trigger w))
     = in_flight_requests (client w)"
  by (simp_all add: ScheduleLoadAnyStartablePendingRequests_def Let_def)

lemma Reprioritize_common:
  fixes w env r old_priority_params new_priority_params
  defines "w' \<equiv> Client_ReprioritizeRequest env r old_priority_params new_priority_params w"
  shows "priority_params (handles w' r) = new_priority_params"
    and "request_priority (url_request w' r) = priority new_priority_params"
    and "attributes (handles w' r)
           = DetermineRequestAttributes env (priority_updated r new_priority_params w) r"
    and "in_flight_requests (client w') = in_flight_requests (client w)"
proof -
  show "priority_params (handles w' r) = new_priority_params"
    by (cases "r \<in> set (queue (pending_requests (client w)))")
       (simp_all add: w'_def Reprioritize_in_flight Reprioritize_pending Let_def Insert_fields)
  show "request_priority (url_request w' r) = priority new_priority_params"
    by (cases "r \<in> set (queue (pending_requests (client w)))")
       (simp_all add: w'_def Reprioritize_in_flight Reprioritize_pending Let_def Insert_fields
          url_request_def)
  show "attributes (handles w' r)
           = DetermineRequestAttributes env (priority_updated r new_priority_params w) r"
    by (cases "r \<in> set (queue (pending_requests (client w)))")
       (simp_all add: w'_def Reprioritize_in_flight Reprioritize_pending Let_def)
  show "in_flight_requests (client w') = in_flight_requests (client w)"
    by (cases "r \<in> set (queue (pending_requests (client w)))")
       (simp_all add: w'_def Reprioritize_in_flight Reprioritize_pending Let_def)
qed

lemma Reprioritize_queue:
  fixes w env r old_priority_params new_priority_params
  assumes "r \<in> set (queue (pending_requests (client w)))"
  defines "w' \<equiv> Client_ReprioritizeRequest env r old_priority_params new_priority_params w"
  defines "ids \<equiv> fifo_ordering_ids (pending_requests (client w))"
  shows "fifo_ordering (handles w' r) = ids + 1"
    and "fifo_ordering_ids (pending_requests (client w')) = ids + 1"
    and "\<exists>hs. queue (pending_requests (client w'))
                 = multiset_insert hs r (remove1 r (queue (pending_requests (client w))))
              \<and> priority_params (hs r) = new_priority_params
              \<and> fifo_ordering (hs r) = ids + 1
              \<and> (\<forall>x. x \<noteq> r \<longrightarrow> priority_params (hs x) = priority_params (handles w x)
                                 \<and> fifo_ordering (hs x) = fifo_ordering (handles w x))"
proof -
  let ?w3 = "SetRequestAttributes r
               (DetermineRequestAttributes env (priority_updated r new_priority_params w) r)
               (priority_updated r new_priority_params w)"
  let ?hs = "handles (set_fifo_ordering r (ids + 1) (Erase r ?w3))"
  have ids3: "fifo_ordering_ids (pending_requests (client (Erase r ?w3))) = ids"
    by (simp add: ids_def)
  show "fifo_ordering (handles w' r) = ids + 1"
    using assms(1) by (simp add: w'_def Reprioritize_pending Let_def Insert_fields ids_def)
  show "fifo_ordering_ids (pending_requests (client w')) = ids + 1"
    using assms(1) by (simp add: w'_def Reprioritize_pending Let_def Insert_fields ids_def)
  have "queue (pending_requests (client w'))
          = multiset_insert ?hs r (remove1 r (queue (pending_requests (client w))))"
    using assms(1) by (simp add: w'_def Reprioritize_pending Let_def Insert_fields ids_def)
  moreover have "priority_params (?hs r) = new_priority_params" "fifo_ordering (?hs r) = ids + 1"
    by (simp_all add: set_fifo_ordering_def)
  moreover have "\<forall>x. x \<noteq> r \<longrightarrow> priority_params (?hs x) = priority_params (handles w x)
                                 \<and> fifo_ordering (?hs x) = fifo_ordering (handles w x)"
    by (simp add: set_fifo_ordering_def)
  ultimately show "\<exists>hs. queue (pending_requests (client w'))
                 = multiset_insert hs r (remove1 r (queue (pending_requests (client w))))
              \<and> priority_params (hs r) = new_priority_params
              \<and> fifo_ordering (hs r) = ids + 1
              \<and> (\<forall>x. x \<noteq> r \<longrightarrow> priority_params (hs x) = priority_params (handles w x)
                                 \<and> fifo_ordering (hs x) = fifo_ordering (handles w x))"
    by blast
qed

lemma Reprioritize_behind_peers:
  assumes "well_tracked w" and "queue_sorted w"
    and "r \<in> set (queue (pending_requests (client w)))"
    and "x \<in> set (queue (pending_requests (client w)))" and "x \<noteq> r"
    and "priority_params (handles w x) = new_priority_params"
    and "fifo_ordering (handles w x) \<le> fifo_ordering_ids (pending_requests (client w))"
    and "fifo_ordering_ids (pending_requests (client w)) \<noteq> - 1"
  shows "precedes x r (queue (pending_requests (client
           (Client_ReprioritizeRequest env r old_priority_params new_priority_params w))))"
proof -
  let ?q = "queue (pending_requests (client w))"
  let ?ids = "fifo_ordering_ids (pending_requests (client w))"
  obtain hs where hs:
    "queue (pending_requests (client
       (Client_ReprioritizeRequest env r old_priority_params new_priority_params w)))
       = multiset_insert hs r (remove1 r ?q)"
    "priority_params (hs r) = new_priority_params"
    "fifo_ordering (hs r) = ?ids + 1"
    "\<And>y. y \<noteq> r \<Longrightarrow> priority_params (hs y) = priority_params (handles w y)
                     \<and> fifo_ordering (hs y) = fifo_ordering (handles w y)"
    using Reprioritize_queue(3) [OF assms(3), of env old_priority_params new_priority_params]
    by blast
  have d: "distinct ?q"
    using assms(1) by (simp add: well_tracked_def)
  have "sorted_wrt (\<lambda>a b. \<not> ScheduledResourceSorter (handles w b) (handles w a)) (remove1 r ?q)"
    using assms(2) by (simp add: queue_sorted_def sorted_wrt_remove1)
  then have srt: "sorted_wrt (\<lambda>a b. \<not> ScheduledResourceSorter (hs b) (hs a)) (remove1 r ?q)"
    by (rule sorted_keys) (rule hs(4), use d in auto)
  have xin: "x \<in> set (remove1 r ?q)"
    using assms(4,5) by simp
  have rout: "r \<notin> set (remove1 r ?q)"
    using d by simp
  have "fifo_ordering (hs x) < fifo_ordering (hs r)"
    using word_succ_greater [OF assms(8) assms(7)] hs(3) hs(4) [OF assms(5)] by simp
  then have "\<not> ScheduledResourceSorter (hs r) (hs x)"
    using hs(2) hs(4) [OF assms(5)] assms(6) by (simp add: ScheduledResourceSorter_def)
  with srt xin rout show ?thesis
    unfolding hs(1) by (rule precedes_multiset_insert)
qed

lemma tracked_submit: "tracked (submit env async r w) = insert r (tracked w)"
  by (auto simp: submit_def Client_ScheduleRequest_def tracked_def Let_def StartRequest_def
        InsertInFlightRequest_def NewScheduledResourceRequestImpl_def)

lemma reachable_submit: "reachable w \<Longrightarrow> r \<notin> tracked w \<Longrightarrow> reachable (submit env async r w)"
  unfolding submit_def by (rule reachable.scheduled)

lemma reachable_fold_submit:
  "reachable w \<Longrightarrow> distinct rs \<Longrightarrow> set rs \<inter> tracked w = {} \<Longrightarrow>
   reachable (fold (submit env async) rs w)"
proof (induction rs arbitrary: w)
  case Nil
  then show ?case by simp
next
  case (Cons r rs)
  have "reachable (submit env async r w)"
    using Cons.prems by (intro reachable_submit) auto
  moreover have "set rs \<inter> tracked (submit env async r w) = {}"
    using Cons.prems by (auto simp: tracked_submit)
  ultimately show ?case
    using Cons.IH Cons.prems(2) by simp
qed

lemma reachable_example_world: "reachable (example_world reqs)"
  unfolding example_world_def by (rule reachable.created)

lemma tracked_example_world: "tracked (example_world reqs) = {}"
  by (simp add: example_world_def tracked_def NewClient_def Let_def
        UpdateParamsForNetworkQuality_def)

lemma reachable_eight_submitted: "reachable (eight_submitted p)"
  unfolding eight_submitted_def
  by (rule reachable_fold_submit) (simp_all add: reachable_example_world tracked_example_world)

lemma Reprioritize_in_flight_rest:
  fixes w env r old_priority_params new_priority_params
  assumes "r \<notin> set (queue (pending_requests (client w)))"
  defines "w' \<equiv> Client_ReprioritizeRequest env r old_priority_params new_priority_params w"
  shows "pending_requests (client w') = pending_requests (client w)
       \<and> fifo_ordering (handles w' r) = fifo_ordering (handles w r)
       \<and> posted_tasks w' = posted_tasks w
       \<and> num_skipped_scans_due_to_scheduled_start (client w')
           = num_skipped_scans_due_to_scheduled_start (client w)"
  using assms(1) by (simp add: w'_def Reprioritize_in_flight)

lemma Reprioritize_pending_pass:
  fixes w env r old_priority_params new_priority_params
  assumes "r \<in> set (queue (pending_requests (client w)))"
  defines "w' \<equiv> Client_ReprioritizeRequest env r old_priority_params new_priority_params w"
  shows "if priority_ordinal (priority new_priority_params)
              > priority_ordinal (priority old_priority_params)
         then num_skipped_scans_due_to_scheduled_start (client w')
                = num_skipped_scans_due_to_scheduled_start (client w) + 1
            \<and> posted_tasks w'
                = posted_tasks w
                    @ (if num_skipped_scans_due_to_scheduled_start (client w) = 0
                       then [LoadAnyStartablePendingRequestsTask (this_client (client w))
                               REQUEST_REPRIORITIZED]
                       else [])
         else num_skipped_scans_due_to_scheduled_start (client w')
                = num_skipped_scans_due_to_scheduled_start (client w)
            \<and> posted_tasks w' = posted_tasks w"
  using assms(1)
  by (simp add: w'_def Reprioritize_pending Let_def Insert_fields
        ScheduleLoadAnyStartablePendingRequests_def Insert_def MakeFifoOrderingId_def
        set_fifo_ordering_def)

lemma Reprioritize_same_requests:
  assumes "distinct (queue (pending_requests (client w)))"
    and "r \<in> set (queue (pending_requests (client w)))"
  shows "set (queue (pending_requests (client
           (Client_ReprioritizeRequest env r old_priority_params new_priority_params w))))
         = set (queue (pending_requests (client w)))"
  using Reprioritize_queue(3) [OF assms(2), of env old_priority_params new_priority_params] assms
  by auto

text \<open>
  C6 (as amended). Re-prioritizing a tracked handle of a client sets its priority key and
  the priority of its request and recomputes its attributes (which adjusts the cached
  counters); the in-flight set does not change. If the handle is in flight, nothing else
  happens: the queue, the FIFO position of the handle, the posted tasks and the count of
  skipped scans stay as they were. If the handle is pending, it is erased and inserted
  again with the next FIFO sequence number, the counter plus one, so that, as long as the
  counter has not wrapped around, it stands behind every pending peer that has the new
  priority key; and \<^verbatim>\<open>ScheduleLoadAnyStartablePendingRequests\<close> is called (the count of
  skipped scans goes up by one, and a task is posted if the count was zero) if and only if
  the new priority is strictly higher than the old one.
\<close>

theorem C6_reprioritize_postconditions:
  assumes "reachable w" and "r \<in> tracked w"
  shows "(let w' = Client_ReprioritizeRequest env r old_priority_params new_priority_params w;
              ids = fifo_ordering_ids (pending_requests (client w))
          in priority_params (handles w' r) = new_priority_params
           \<and> request_priority (url_request w' r) = priority new_priority_params
           \<and> attributes (handles w' r)
               = DetermineRequestAttributes env (priority_updated r new_priority_params w) r
           \<and> in_flight_requests (client w') = in_flight_requests (client w)
           \<and> (r \<in> set (in_flight_requests (client w)) \<longrightarrow>
                 pending_requests (client w') = pending_requests (client w)
               \<and> fifo_ordering (handles w' r) = fifo_ordering (handles w r)
               \<and> posted_tasks w' = posted_tasks w
               \<and> num_skipped_scans_due_to_scheduled_start (client w')
                   = num_skipped_scans_due_to_scheduled_start (client w))
           \<and> (r \<in> set (queue (pending_requests (client w))) \<longrightarrow>
                 fifo_ordering (handles w' r) = ids + 1
               \<and> fifo_ordering_ids (pending_requests (client w')) = ids + 1
               \<and> set (queue (pending_requests (client w')))
                   = set (queue (pending_requests (client w)))
               \<and> (\<forall>x \<in> set (queue (pending_requests (client w))).
                     x \<noteq> r \<and> priority_params (handles w x) = new_priority_params
                     \<and> fifo_ordering (handles w x) \<le> ids \<and> ids \<noteq> - 1
                     \<longrightarrow> precedes x r (queue (pending_requests (client w'))))
               \<and> (if priority_ordinal (priority new_priority_params)
                        > priority_ordinal (priority old_priority_params)
                   then num_skipped_scans_due_to_scheduled_start (client w')
                          = num_skipped_scans_due_to_scheduled_start (client w) + 1
                      \<and> posted_tasks w'
                          = posted_tasks w
                              @ (if num_skipped_scans_due_to_scheduled_start (client w) = 0
                                 then [LoadAnyStartablePendingRequestsTask
                                         (this_client (client w)) REQUEST_REPRIORITIZED]
                                 else [])
                   else num_skipped_scans_due_to_scheduled_start (client w')
                          = num_skipped_scans_due_to_scheduled_start (client w)
                      \<and> posted_tasks w' = posted_tasks w)))"
proof -
  have wt: "well_tracked w" and qs: "queue_sorted w"
    using assms(1) by (rule reachable_well_tracked, rule reachable_queue_sorted)
  have disj: "r \<in> set (in_flight_requests (client w)) \<Longrightarrow>
              r \<notin> set (queue (pending_requests (client w)))"
    using wt by (auto simp: well_tracked_def)
  have d: "distinct (queue (pending_requests (client w)))"
    using wt by (simp add: well_tracked_def)
  note inst = Reprioritize_common [where w = w and env = env and r = r and old_priority_params = old_priority_params and new_priority_params = new_priority_params]
      Reprioritize_in_flight_rest [where w = w and env = env and r = r and old_priority_params = old_priority_params and new_priority_params = new_priority_params]
      Reprioritize_queue(1,2) [where w = w and env = env and r = r and old_priority_params = old_priority_params and new_priority_params = new_priority_params]
      Reprioritize_same_requests [OF d, where r = r and env = env
        and old_priority_params = old_priority_params
        and new_priority_params = new_priority_params]
      Reprioritize_behind_peers [OF wt qs, where r = r and env = env
        and old_priority_params = old_priority_params
        and new_priority_params = new_priority_params]
      Reprioritize_pending_pass [where w = w and env = env and r = r and old_priority_params = old_priority_params and new_priority_params = new_priority_params]
  show ?thesis
    unfolding Let_def using inst disj
    by blast
qed

theorem C6_reprioritize_postconditions_witness:
  "reachable (eight_submitted LOW) \<and> 8 \<in> tracked (eight_submitted LOW)
   \<and> 8 \<in> set (queue (pending_requests (client (eight_submitted LOW))))
   \<and> priority_params (handles
        (Client_ReprioritizeRequest example_env 8 \<lparr>priority = LOW, intra_priority = 0\<rparr>
           \<lparr>priority = LOWEST, intra_priority = 0\<rparr> (eight_submitted LOW)) 8)
       = \<lparr>priority = LOWEST, intra_priority = 0\<rparr>
   \<and> fifo_ordering (handles
        (Client_ReprioritizeRequest example_env 8 \<lparr>priority = LOW, intra_priority = 0\<rparr>
           \<lparr>priority = LOWEST, intra_priority = 0\<rparr> (eight_submitted LOW)) 8) = 3"
proof -
  have r: "reachable (eight_submitted LOW)"
    by (rule reachable_eight_submitted)
  have q: "8 \<in> set (queue (pending_requests (client (eight_submitted LOW))))"
    by code_simp
  then have t: "8 \<in> tracked (eight_submitted LOW)"
    by (simp add: tracked_def)
  have ids: "fifo_ordering_ids (pending_requests (client (eight_submitted LOW))) = 2"
    by code_simp
  show ?thesis
    using r t q ids
      C6_reprioritize_postconditions [OF r t, of example_env
        "\<lparr>priority = LOW, intra_priority = 0\<rparr>" "\<lparr>priority = LOWEST, intra_priority = 0\<rparr>"]
    by (simp add: Let_def)
qed

text \<open>The claim as stated fails for a handle in flight: re-prioritizing a delayable
  in-flight request to HIGHEST also clears its Delayable attribute and lowers the cached
  count of in-flight delayable requests.\<close>

theorem C6_stated_counterexample:
  "1 \<in> set (in_flight_requests (client (eight_submitted LOW)))
   \<and> attributes (handles eight_one_promoted 1) \<noteq> attributes (handles (eight_submitted LOW) 1)
   \<and> in_flight_delayable_count (client eight_one_promoted)
       \<noteq> in_flight_delayable_count (client (eight_submitted LOW))"
  by code_simp

subsection \<open>The layout-blocking guard\<close>



subsection \<open>First in, first out among equal priorities\<close>

lemma keep_not_start:
  assumes "same_admission_inputs w x y"
    and "ShouldStartRequest env w x = DO_NOT_START_REQUEST_AND_KEEP_SEARCHING"
  shows "ShouldStartRequest env w y \<noteq> START_REQUEST"
proof -
  let ?late = "\<lambda>r. case max_queuing_time (params_for_network_quality (client w)) of
                 None \<Rightarrow> False
               | Some t \<Rightarrow> NowTicks env - creation_time (url_request w r) \<ge> t"
  have same: "is_async (handles w y) = is_async (handles w x)"
    "host_port_pair (handles w y) = host_port_pair (handles w x)"
    "RequestAttributesAreSet (attributes (handles w y)) kAttributeDelayable
       = RequestAttributesAreSet (attributes (handles w x)) kAttributeDelayable"
    "request_url (url_request w y) = request_url (url_request w x)"
    "network_isolation_key (url_request w y) = network_isolation_key (url_request w x)"
    "request_priority (url_request w y) = request_priority (url_request w x)"
    "unique_id_hash_code (url_request w y) = unique_id_hash_code (url_request w x)"
    using assms(1) by (simp_all add: same_admission_inputs_def)
  have late: "?late y \<Longrightarrow> ?late x"
    using assms(1) by (auto simp: same_admission_inputs_def split: option.splits)
  have throttle: "ShouldThrottleBrowserInitiatedRequestDueToP2PConnections env w y
                    = ShouldThrottleBrowserInitiatedRequestDueToP2PConnections env w x"
    by (simp add: ShouldThrottleBrowserInitiatedRequestDueToP2PConnections_def same)
  show ?thesis
  proof (cases "enabled env \<and> \<not> is_browser_client (client w)")
    case False
    then show ?thesis
      using assms(2) by (auto simp: ShouldStartRequest_def Let_def throttle split: if_splits)
  next
    case True
    have nl: "\<not> ?late x"
      using assms(2) True by (simp add: ShouldStartRequest_def Let_def split: if_splits)
    then have nly: "\<not> ?late y"
      using late by blast
    have "ShouldStartRequest env w y = ShouldStartRequest env w x"
      using True nl nly by (simp add: ShouldStartRequest_def Let_def same)
    with assms(2) show ?thesis by simp
  qed
qed

lemma precedes_members:
  "precedes x y xs \<Longrightarrow> x \<in> set xs \<and> y \<in> set xs \<and> x \<noteq> y"
  by (auto simp: precedes_def dest: set_takeWhileD)

lemma precedes_index:
  assumes "precedes x y xs" and "i < length xs" and "xs ! i = y"
  shows "\<exists>j<i. xs ! j = x"
proof -
  let ?tw = "takeWhile (\<lambda>z. z \<noteq> y) xs"
  from assms(1) obtain j where j: "j < length ?tw" "?tw ! j = x"
    by (auto simp: precedes_def in_set_conv_nth)
  have "\<not> i < length ?tw"
  proof
    assume "i < length ?tw"
    then have "?tw ! i \<in> set ?tw" by simp
    then have "?tw ! i \<noteq> y" by (auto dest: set_takeWhileD)
    moreover have "?tw ! i = xs ! i"
      using \<open>i < length ?tw\<close> by (rule takeWhile_nth)
    ultimately show False using assms(3) by simp
  qed
  moreover have "xs ! j = x"
    using j takeWhile_nth [of j "\<lambda>z. z \<noteq> y" xs] by simp
  ultimately show ?thesis
    using j(1) by (intro exI [of _ j]) simp
qed

lemma takeWhile_remove1:
  "r \<noteq> y \<Longrightarrow> takeWhile (\<lambda>z. z \<noteq> y) (remove1 r xs) = remove1 r (takeWhile (\<lambda>z. z \<noteq> y) xs)"
  by (induction xs) auto

lemma precedes_remove1:
  "precedes x y xs \<Longrightarrow> r \<noteq> x \<Longrightarrow> r \<noteq> y \<Longrightarrow> precedes x y (remove1 r xs)"
  by (simp add: precedes_def takeWhile_remove1)

lemma handles_StartRequest_other:
  "z \<noteq> r \<Longrightarrow> handles (StartRequest env r start_mode trigger w) z = handles w z"
  by (simp add: StartRequest_def InsertInFlightRequest_def SetRequestAttributes_def
        set_attributes_def Start_def Let_def)

lemma url_requests_StartRequest [simp]:
  "url_requests (StartRequest env r start_mode trigger w) = url_requests w"
  by (simp add: StartRequest_def InsertInFlightRequest_def Start_def Let_def)

lemma same_admission_inputs_started:
  assumes "x \<noteq> r" and "y \<noteq> r"
  shows "same_admission_inputs (StartRequest env r start_mode trigger (Erase r w)) x y
           = same_admission_inputs w x y"
  using assms
  by (simp add: same_admission_inputs_def url_request_def handles_StartRequest_other)

lemma loop_queue_subset:
  "set (queue (pending_requests (client (LoadAnyStartablePendingRequests_loop env trigger w i))))
     \<subseteq> set (queue (pending_requests (client w)))"
proof (induction env trigger w i rule: LoadAnyStartablePendingRequests_loop.induct)
  case (1 env trigger w i)
  show ?case
  proof (cases "i \<ge> length (queue (pending_requests (client w)))")
    case True
    then show ?thesis
      by (subst LoadAnyStartablePendingRequests_loop.simps) simp
  next
    case False
    show ?thesis
    proof (cases "ShouldStartRequest env w (queue (pending_requests (client w)) ! i)")
      case DO_NOT_START_REQUEST_AND_STOP_SEARCHING
      with False show ?thesis
        by (subst LoadAnyStartablePendingRequests_loop.simps) simp
    next
      case DO_NOT_START_REQUEST_AND_KEEP_SEARCHING
      with False "1.IH"(1) show ?thesis
        by (subst LoadAnyStartablePendingRequests_loop.simps) simp
    next
      case START_REQUEST
      have "set (remove1 (queue (pending_requests (client w)) ! i)
                  (queue (pending_requests (client w))))
              \<subseteq> set (queue (pending_requests (client w)))"
        by (rule set_remove1_subset)
      with False START_REQUEST "1.IH"(2) show ?thesis
        by (subst LoadAnyStartablePendingRequests_loop.simps) auto
    qed
  qed
qed

lemma loop_in_order:
  assumes "well_tracked w" and "same_admission_inputs w x y"
    and "precedes x y (queue (pending_requests (client w)))"
    and "\<forall>j<i. j < length (queue (pending_requests (client w))) \<longrightarrow>
           ShouldStartRequest env w (queue (pending_requests (client w)) ! j)
             = DO_NOT_START_REQUEST_AND_KEEP_SEARCHING"
    and "y \<notin> set (queue (pending_requests
           (client (LoadAnyStartablePendingRequests_loop env trigger w i))))"
  shows "x \<notin> set (queue (pending_requests
           (client (LoadAnyStartablePendingRequests_loop env trigger w i))))"
  using assms
proof (induction env trigger w i rule: LoadAnyStartablePendingRequests_loop.induct)
  case (1 env trigger w i)
  let ?q = "queue (pending_requests (client w))"
  have mem: "x \<in> set ?q" "y \<in> set ?q" "x \<noteq> y"
    using precedes_members [OF "1.prems"(3)] by simp_all
  show ?case
  proof (cases "i \<ge> length ?q")
    case True
    with "1.prems"(5) mem(2) show ?thesis
      by (subst (asm) LoadAnyStartablePendingRequests_loop.simps) simp
  next
    case False
    let ?r = "?q ! i"
    show ?thesis
    proof (cases "ShouldStartRequest env w ?r")
      case DO_NOT_START_REQUEST_AND_STOP_SEARCHING
      with False "1.prems"(5) mem(2) show ?thesis
        by (subst (asm) LoadAnyStartablePendingRequests_loop.simps) simp
    next
      case DO_NOT_START_REQUEST_AND_KEEP_SEARCHING
      have step: "LoadAnyStartablePendingRequests_loop env trigger w i
                    = LoadAnyStartablePendingRequests_loop env trigger w (Suc i)"
        using False DO_NOT_START_REQUEST_AND_KEEP_SEARCHING
        by (subst LoadAnyStartablePendingRequests_loop.simps) simp
      have "\<forall>j<Suc i. j < length ?q \<longrightarrow>
              ShouldStartRequest env w (?q ! j) = DO_NOT_START_REQUEST_AND_KEEP_SEARCHING"
        using "1.prems"(4) DO_NOT_START_REQUEST_AND_KEEP_SEARCHING by (auto simp: less_Suc_eq)
      with "1.IH"(1) [OF False DO_NOT_START_REQUEST_AND_KEEP_SEARCHING "1.prems"(1,2,3)]
        "1.prems"(5) show ?thesis
        by (simp add: step)
    next
      case START_REQUEST
      let ?w1 = "StartRequest env ?r START_ASYNC trigger (Erase ?r w)"
      have step: "LoadAnyStartablePendingRequests_loop env trigger w i
                    = LoadAnyStartablePendingRequests_loop env trigger ?w1 0"
        using False START_REQUEST
        by (subst LoadAnyStartablePendingRequests_loop.simps) simp
      have d: "distinct ?q"
        using "1.prems"(1) by (simp add: well_tracked_def)
      have ry: "?r \<noteq> y"
      proof
        assume "?r = y"
        then obtain j where j: "j < i" "?q ! j = x"
          using precedes_index [OF "1.prems"(3), of i] False by auto
        then have "ShouldStartRequest env w x = DO_NOT_START_REQUEST_AND_KEEP_SEARCHING"
          using "1.prems"(4) False by auto
        from keep_not_start [OF "1.prems"(2) this] START_REQUEST \<open>?r = y\<close>
        show False by simp
      qed
      show ?thesis
      proof (cases "?r = x")
        case True
        then have "x \<notin> set (queue (pending_requests (client ?w1)))"
          using d by simp
        then show ?thesis
          using loop_queue_subset [of env trigger ?w1 0] by (auto simp: step)
      next
        case rx: False
        have rq: "?r \<in> set ?q" using False by simp
        have wt1: "well_tracked ?w1"
        proof (rule well_tracked_StartRequest)
          show "well_tracked (Erase ?r w)"
            using "1.prems"(1) by (rule well_tracked_Erase)
          show "?r \<notin> tracked (Erase ?r w)"
            using "1.prems"(1) rq by (auto simp: well_tracked_def tracked_def)
          show "\<not> RequestAttributesAreSet (attributes (handles (Erase ?r w) ?r)) IFD"
            "\<not> RequestAttributesAreSet (attributes (handles (Erase ?r w) ?r))
                 kAttributeLayoutBlocking"
            using "1.prems"(1) rq by (auto simp: well_tracked_def tracked_def)
        qed
        have sa1: "same_admission_inputs ?w1 x y"
          using rx ry "1.prems"(2) by (simp add: same_admission_inputs_started)
        have pr1: "precedes x y (queue (pending_requests (client ?w1)))"
          using "1.prems"(3) rx ry by (simp add: precedes_remove1)
        from "1.IH"(2) [OF False START_REQUEST wt1 sa1 pr1] "1.prems"(5)
        show ?thesis
          by (simp add: step)
      qed
    qed
  qed
qed

lemma pass_in_order:
  assumes "well_tracked w" and "same_admission_inputs w x y"
    and "precedes x y (queue (pending_requests (client w)))"
    and "y \<notin> set (queue (pending_requests
           (client (LoadAnyStartablePendingRequests env trigger w))))"
  shows "x \<notin> set (queue (pending_requests
           (client (LoadAnyStartablePendingRequests env trigger w))))"
proof -
  let ?w0 = "w\<lparr>client := (client w)\<lparr>num_skipped_scans_due_to_scheduled_start := 0\<rparr>\<rparr>"
  have "well_tracked ?w0 = well_tracked w"
    by (rule well_tracked_cong) simp_all
  then have wt: "well_tracked ?w0"
    using assms(1) by simp
  have sa: "same_admission_inputs ?w0 x y"
    using assms(2) by (simp add: same_admission_inputs_def url_request_def)
  have pr: "precedes x y (queue (pending_requests (client ?w0)))"
    using assms(3) by simp
  show ?thesis
    using loop_in_order [OF wt sa pr, of 0 env trigger] assms(4)
    by (simp add: LoadAnyStartablePendingRequests_def)
qed

lemma remove_in_order:
  assumes "well_tracked w" and "r \<in> set (in_flight_requests (client w))"
    and "same_admission_inputs w x y"
    and "precedes x y (queue (pending_requests (client w)))"
    and "y \<notin> set (queue (pending_requests (client (Client_RemoveRequest env r w))))"
  shows "x \<notin> set (queue (pending_requests (client (Client_RemoveRequest env r w))))"
proof -
  let ?w1 = "if \<not> RequestAttributesAreSet (attributes (handles w r)) kAttributeDelayable
             then w\<lparr>client := (client w)\<lparr>last_non_delayable_request_end :=
                       Some (NowTicks env)\<rparr>\<rparr>
             else w"
  let ?w2 = "EraseInFlightRequest r ?w1"
  have mem: "x \<in> set (queue (pending_requests (client w)))"
    "y \<in> set (queue (pending_requests (client w)))"
    using precedes_members [OF assms(4)] by simp_all
  have rq: "r \<notin> set (queue (pending_requests (client w)))"
    using assms(1,2) by (auto simp: well_tracked_def)
  then have ne: "x \<noteq> r" "y \<noteq> r"
    using mem by auto
  have rm: "Client_RemoveRequest env r w
              = LoadAnyStartablePendingRequests env COMPLETION_POST_BODY ?w2"
    using rq by (simp add: Client_RemoveRequest_def IsQueued_def Let_def)
  have "well_tracked ?w1 = well_tracked w"
    by (rule well_tracked_cong) simp_all
  then have wt: "well_tracked ?w2"
    using assms(1,2) by (intro well_tracked_EraseInFlightRequest) simp_all
  have sa: "same_admission_inputs ?w2 x y"
    using assms(3) ne
    by (simp add: same_admission_inputs_def url_request_def EraseInFlightRequest_def
          SetRequestAttributes_def set_attributes_def Let_def)
  have pr: "precedes x y (queue (pending_requests (client ?w2)))"
    using assms(4) by (simp add: EraseInFlightRequest_def)
  show ?thesis
    using pass_in_order [OF wt sa pr, of env COMPLETION_POST_BODY] assms(5)
    unfolding rm by simp
qed

lemma client_New [simp]:
  "client (NewScheduledResourceRequestImpl cid req prio async r w) = client w"
  by (simp add: NewScheduledResourceRequestImpl_def)

lemma submit_behind_peers:
  assumes "well_tracked w" and "queue_sorted w"
    and "x \<in> set (queue (pending_requests (client w)))" and "y \<notin> tracked w"
    and "priority_params (handles w x) = prio"
    and "fifo_ordering (handles w x) \<le> fifo_ordering_ids (pending_requests (client w))"
    and "fifo_ordering_ids (pending_requests (client w)) \<noteq> - 1"
    and "y \<in> set (queue (pending_requests (client
           (Client_ScheduleRequest env y (NewScheduledResourceRequestImpl cid req prio async y w)))))"
  shows "precedes x y (queue (pending_requests (client
           (Client_ScheduleRequest env y (NewScheduledResourceRequestImpl cid req prio async y w)))))"
proof -
  let ?q = "queue (pending_requests (client w))"
  let ?ids = "fifo_ordering_ids (pending_requests (client w))"
  let ?w0 = "NewScheduledResourceRequestImpl cid req prio async y w"
  let ?w1 = "SetRequestAttributes y (DetermineRequestAttributes env ?w0 y) ?w0"
  let ?hs = "handles (set_fifo_ordering y (?ids + 1) ?w1)"
  have yq: "y \<notin> set ?q"
    using assms(4) by (simp add: tracked_def)
  then have xy: "x \<noteq> y"
    using assms(3) by auto
  have q1: "queue (pending_requests (client ?w1)) = ?q"
    "fifo_ordering_ids (pending_requests (client ?w1)) = ?ids"
    by (simp_all add: NewScheduledResourceRequestImpl_def)
  have "ShouldStartRequest env ?w1 y \<noteq> START_REQUEST"
  proof
    assume "ShouldStartRequest env ?w1 y = START_REQUEST"
    then have "queue (pending_requests (client (Client_ScheduleRequest env y ?w0))) = ?q"
      by (simp add: Client_ScheduleRequest_def Let_def)
    with assms(8) yq show False by simp
  qed
  then have res: "queue (pending_requests (client (Client_ScheduleRequest env y ?w0)))
                    = multiset_insert ?hs y ?q"
    by (simp add: Client_ScheduleRequest_def Let_def Insert_fields)
  have keys: "priority_params (?hs z) = priority_params (handles w z)
            \<and> fifo_ordering (?hs z) = fifo_ordering (handles w z)" if "z \<noteq> y" for z
    using that by (simp add: set_fifo_ordering_def NewScheduledResourceRequestImpl_def)
  have ykeys: "priority_params (?hs y) = prio" "fifo_ordering (?hs y) = ?ids + 1"
    by (simp_all add: set_fifo_ordering_def NewScheduledResourceRequestImpl_def)
  have srt: "sorted_wrt (\<lambda>a b. \<not> ScheduledResourceSorter (?hs b) (?hs a)) ?q"
    using assms(2) [unfolded queue_sorted_def] by (rule sorted_keys) (rule keys, use yq in auto)
  have "fifo_ordering (?hs x) < fifo_ordering (?hs y)"
    using word_succ_greater [OF assms(7) assms(6)] keys [OF xy] ykeys(2) by simp
  then have "\<not> ScheduledResourceSorter (?hs y) (?hs x)"
    using keys [OF xy] ykeys(1) assms(5) by (simp add: ScheduledResourceSorter_def)
  with srt assms(3) yq show ?thesis
    unfolding res by (rule precedes_multiset_insert)
qed

text \<open>
  C5 (as amended). \<^verbatim>\<open>ScheduledResourceSorter\<close> compares priority descending, then
  intra-priority descending, then FIFO sequence number ascending, and the pending queue of
  every reachable state is sorted by it. A submitted request that is queued stands behind
  every pending request with the same priority key, as long as the sequence counter has
  not wrapped around. A pass, whether it runs on its own or after the removal of an
  in-flight request, never starts a pending request while it leaves pending a request that
  stands ahead of it in the queue and has the same admission inputs. So two requests with
  the same priority key that the admission rules do not tell apart are admitted in the
  order of their last insertion into the queue, which is the order of submission unless
  one of them has been re-prioritized since.
\<close>

theorem C5_queue_order_and_fifo:
  "(ScheduledResourceSorter a b \<longleftrightarrow>
      priority_ordinal (priority (priority_params a))
        > priority_ordinal (priority (priority_params b))
    \<or> (priority (priority_params a) = priority (priority_params b)
       \<and> (intra_priority (priority_params a) > intra_priority (priority_params b)
          \<or> (intra_priority (priority_params a) = intra_priority (priority_params b)
             \<and> fifo_ordering a < fifo_ordering b))))
   \<and> (reachable w \<longrightarrow> queue_sorted w)
   \<and> (reachable w1 \<and> x1 \<in> set (queue (pending_requests (client w1))) \<and> y1 \<notin> tracked w1
        \<and> priority_params (handles w1 x1) = prio
        \<and> fifo_ordering (handles w1 x1) \<le> fifo_ordering_ids (pending_requests (client w1))
        \<and> fifo_ordering_ids (pending_requests (client w1)) \<noteq> - 1
        \<and> y1 \<in> set (queue (pending_requests (client
              (Client_ScheduleRequest env1 y1
                 (NewScheduledResourceRequestImpl cid req prio async y1 w1)))))
      \<longrightarrow> precedes x1 y1 (queue (pending_requests (client
              (Client_ScheduleRequest env1 y1
                 (NewScheduledResourceRequestImpl cid req prio async y1 w1))))))
   \<and> (reachable w \<and> precedes x y (queue (pending_requests (client w)))
        \<and> same_admission_inputs w x y
        \<and> y \<notin> set (queue (pending_requests
              (client (LoadAnyStartablePendingRequests env trigger w))))
      \<longrightarrow> x \<notin> set (queue (pending_requests
              (client (LoadAnyStartablePendingRequests env trigger w)))))
   \<and> (reachable w \<and> r \<in> set (in_flight_requests (client w))
        \<and> precedes x y (queue (pending_requests (client w)))
        \<and> same_admission_inputs w x y
        \<and> y \<notin> set (queue (pending_requests (client (Client_RemoveRequest env r w))))
      \<longrightarrow> x \<notin> set (queue (pending_requests (client (Client_RemoveRequest env r w)))))"
proof (intro conjI impI)
  show "ScheduledResourceSorter a b \<longleftrightarrow>
      priority_ordinal (priority (priority_params a))
        > priority_ordinal (priority (priority_params b))
    \<or> (priority (priority_params a) = priority (priority_params b)
       \<and> (intra_priority (priority_params a) > intra_priority (priority_params b)
          \<or> (intra_priority (priority_params a) = intra_priority (priority_params b)
             \<and> fifo_ordering a < fifo_ordering b)))"
    by (rule Sorter_lexicographic)
next
  assume "reachable w"
  then show "queue_sorted w" by (rule reachable_queue_sorted)
next
  assume h: "reachable w1 \<and> x1 \<in> set (queue (pending_requests (client w1))) \<and> y1 \<notin> tracked w1
        \<and> priority_params (handles w1 x1) = prio
        \<and> fifo_ordering (handles w1 x1) \<le> fifo_ordering_ids (pending_requests (client w1))
        \<and> fifo_ordering_ids (pending_requests (client w1)) \<noteq> - 1
        \<and> y1 \<in> set (queue (pending_requests (client
              (Client_ScheduleRequest env1 y1
                 (NewScheduledResourceRequestImpl cid req prio async y1 w1)))))"
  then have "well_tracked w1" "queue_sorted w1"
    by (simp_all add: reachable_well_tracked reachable_queue_sorted)
  with h show "precedes x1 y1 (queue (pending_requests (client
              (Client_ScheduleRequest env1 y1
                 (NewScheduledResourceRequestImpl cid req prio async y1 w1)))))"
    by (intro submit_behind_peers) simp_all
next
  assume h: "reachable w \<and> precedes x y (queue (pending_requests (client w)))
        \<and> same_admission_inputs w x y
        \<and> y \<notin> set (queue (pending_requests
              (client (LoadAnyStartablePendingRequests env trigger w))))"
  then have "well_tracked w"
    by (simp add: reachable_well_tracked)
  with h show "x \<notin> set (queue (pending_requests
              (client (LoadAnyStartablePendingRequests env trigger w))))"
    by (intro pass_in_order [of w x y]) simp_all
next
  assume h: "reachable w \<and> r \<in> set (in_flight_requests (client w))
        \<and> precedes x y (queue (pending_requests (client w)))
        \<and> same_admission_inputs w x y
        \<and> y \<notin> set (queue (pending_requests (client (Client_RemoveRequest env r w))))"
  then have "well_tracked w"
    by (simp add: reachable_well_tracked)
  with h show "x \<notin> set (queue (pending_requests (client (Client_RemoveRequest env r w))))"
    by (intro remove_in_order [of w r x y]) simp_all
qed

lemma reachable_long_queued: "reachable long_queued"
  unfolding long_queued_def
  by (rule reachable.connection_type_changed) (rule reachable_eight_submitted)

lemma reachable_seven_submitted: "reachable seven_submitted"
  unfolding seven_submitted_def
  by (rule reachable_fold_submit) (simp_all add: reachable_example_world tracked_example_world)

theorem C5_queue_order_and_fifo_witness:
  "reachable long_queued \<and> queue_sorted long_queued
   \<and> reachable seven_submitted
   \<and> 7 \<in> set (queue (pending_requests (client seven_submitted)))
   \<and> 8 \<notin> tracked seven_submitted
   \<and> fifo_ordering (handles seven_submitted 7)
       \<le> fifo_ordering_ids (pending_requests (client seven_submitted))
   \<and> fifo_ordering_ids (pending_requests (client seven_submitted)) \<noteq> - 1
   \<and> precedes 7 8 (queue (pending_requests (client
        (Client_ScheduleRequest example_env 8
           (NewScheduledResourceRequestImpl 0 8 \<lparr>priority = LOW, intra_priority = 0\<rparr> True 8
              seven_submitted)))))
   \<and> 1 \<in> set (in_flight_requests (client long_queued))
   \<and> precedes 7 8 (queue (pending_requests (client long_queued)))
   \<and> same_admission_inputs long_queued 7 8
   \<and> 8 \<notin> set (queue (pending_requests (client
        (LoadAnyStartablePendingRequests late_env LONG_QUEUED_REQUESTS_TIMER_FIRED long_queued))))
   \<and> 7 \<notin> set (queue (pending_requests (client
        (LoadAnyStartablePendingRequests late_env LONG_QUEUED_REQUESTS_TIMER_FIRED long_queued))))
   \<and> 8 \<notin> set (queue (pending_requests (client (Client_RemoveRequest late_env 1 long_queued))))
   \<and> 7 \<notin> set (queue (pending_requests (client (Client_RemoveRequest late_env 1 long_queued))))"
proof -
  have r: "reachable long_queued" "reachable seven_submitted"
    by (rule reachable_long_queued, rule reachable_seven_submitted)
  have s: "7 \<in> set (queue (pending_requests (client seven_submitted)))"
    "8 \<notin> tracked seven_submitted"
    "priority_params (handles seven_submitted 7) = \<lparr>priority = LOW, intra_priority = 0\<rparr>"
    "fifo_ordering (handles seven_submitted 7)
       \<le> fifo_ordering_ids (pending_requests (client seven_submitted))"
    "fifo_ordering_ids (pending_requests (client seven_submitted)) \<noteq> - 1"
    "8 \<in> set (queue (pending_requests (client
        (Client_ScheduleRequest example_env 8
           (NewScheduledResourceRequestImpl 0 8 \<lparr>priority = LOW, intra_priority = 0\<rparr> True 8
              seven_submitted)))))"
    by code_simp+
  have p: "1 \<in> set (in_flight_requests (client long_queued))"
    "precedes 7 8 (queue (pending_requests (client long_queued)))"
    "same_admission_inputs long_queued 7 8"
    "8 \<notin> set (queue (pending_requests (client
        (LoadAnyStartablePendingRequests late_env LONG_QUEUED_REQUESTS_TIMER_FIRED long_queued))))"
    "8 \<notin> set (queue (pending_requests (client (Client_RemoveRequest late_env 1 long_queued))))"
    by code_simp+
  show ?thesis
    using r s p
      C5_queue_order_and_fifo [of _ _ long_queued seven_submitted 7 8
        "\<lparr>priority = LOW, intra_priority = 0\<rparr>" example_env 0 8 True 7 8 late_env
        LONG_QUEUED_REQUESTS_TIMER_FIRED 1]
    by simp
qed

text \<open>The claim as stated fails after a re-prioritization: request 7, submitted before
  request 8 with the same priority, is re-prioritized away and back; both then have the
  same priority key, request 8 stands first, and when a slot becomes free request 8 is
  started while request 7 stays pending.\<close>

theorem C5_stated_counterexample:
  "priority_params (handles fifo_reset_before 7) = priority_params (handles fifo_reset_before 8)
   \<and> queue (pending_requests (client fifo_reset_before)) = [8, 7]
   \<and> 8 \<in> set (in_flight_requests (client (Client_RemoveRequest example_env 1 fifo_reset_before)))
   \<and> queue (pending_requests (client (Client_RemoveRequest example_env 1 fifo_reset_before)))
       = [7]"
  by code_simp

end
